theory Spec2Isabelle
  imports Main "HOL-Library.AList"
begin

section \<open>Data model of the attendance tracker\<close>

text \<open>
  The component \<open>App\<close> keeps three pieces of state that matter here: the attendance
  history (an object keyed by date strings), the activity log (an array, newest
  first) and the selected date. A JavaScript object with string keys is modelled as
  an association list: \<open>map_of\<close> is the property read \<open>history[date]\<close>, and
  \<open>AList.update\<close> is the spread-and-set \<open>{ ...prev, [date]: v }\<close> (an existing key
  keeps its position, a new key goes last). Strings are \<open>string\<close>; the nullable
  \<open>time\<close> field is a \<open>string option\<close> with \<open>None\<close> for \<open>null\<close>.
\<close>

definition FRIENDS :: "string list" where
  "FRIENDS = [''Yolanda'', ''Fadhil'', ''Nisa'', ''Aurel'', ''Jihan'',
              ''Alisa'', ''Opang'', ''Clara'', ''Caca'']"

record AttendanceRecord =
  name :: string
  time :: "string option"
  isPresent :: bool

type_synonym DailyData = "(string \<times> AttendanceRecord list) list"

datatype action = masuk | keluar

text \<open>The fields \<open>id\<close>, \<open>name\<close>, \<open>time\<close> and \<open>date\<close> of a log entry carry the prefix \<open>log_\<close>.\<close>

record LogEntry =
  log_id :: string
  log_name :: string
  action :: action
  log_time :: string
  log_date :: string

record App =
  history :: DailyData
  logs :: "LogEntry list"
  selectedDate :: string

section \<open>Reading and changing a day\<close>

text \<open>The arrow function \<open>name => ({ name, time: null, isPresent: false })\<close>.\<close>

definition absent :: "string \<Rightarrow> AttendanceRecord" where
  "absent n = \<lparr>name = n, time = None, isPresent = False\<rparr>"

text \<open>
  The expression \<open>prev[selectedDate] || FRIENDS.map(...)\<close>: an array, even an empty
  one, is truthy, so the default is taken exactly when the key has no entry.
\<close>

definition dayDataOf :: "DailyData \<Rightarrow> string \<Rightarrow> AttendanceRecord list" where
  "dayDataOf h d = (case map_of h d of Some rs \<Rightarrow> rs | None \<Rightarrow> map absent FRIENDS)"

definition currentAttendance :: "App \<Rightarrow> AttendanceRecord list" where
  "currentAttendance st = dayDataOf (history st) (selectedDate st)"

text \<open>The updater given to \<open>setLogs\<close>: \<open>prevLogs => [newLog, ...prevLogs].slice(0, 100)\<close>.\<close>

definition appendLog :: "LogEntry \<Rightarrow> LogEntry list \<Rightarrow> LogEntry list" where
  "appendLog newLog prevLogs = take 100 (newLog # prevLogs)"

text \<open>
  The callback of \<open>dayData.map\<close> in \<open>toggleAttendance\<close>, run over the whole array.
  Besides the new array it yields the log entries it handed to \<open>setLogs\<close>, in the
  order of the calls. \<open>rnd k\<close> is the identifier that the \<open>k\<close>-th evaluation of
  \<open>Math.random().toString(36).substr(2, 9)\<close> produces during this update, and
  \<open>timeStr\<close> is the formatted wall-clock time read at the start of the handler.
\<close>

fun toggleMap ::
  "string \<Rightarrow> string \<Rightarrow> string \<Rightarrow> (nat \<Rightarrow> string) \<Rightarrow> nat \<Rightarrow> AttendanceRecord list
    \<Rightarrow> AttendanceRecord list \<times> LogEntry list" where
  "toggleMap nm timeStr d rnd k [] = ([], [])"
| "toggleMap nm timeStr d rnd k (record # rest) =
     (if name record = nm then
        let isNowPresent = \<not> isPresent record;
            newLog = \<lparr>log_id = rnd k, log_name = nm,
                      action = (if isNowPresent then masuk else keluar),
                      log_time = timeStr, log_date = d\<rparr>;
            (rest', ls) = toggleMap nm timeStr d rnd (Suc k) rest
        in (record\<lparr>isPresent := isNowPresent,
                    time := (if isNowPresent then Some timeStr else None)\<rparr> # rest',
            newLog # ls)
      else
        let (rest', ls) = toggleMap nm timeStr d rnd k rest
        in (record # rest', ls))"

text \<open>
  \<open>toggleAttendance\<close>: one run of the updater passed to \<open>setHistory\<close>, followed by
  the queued \<open>setLogs\<close> updaters in the order they were queued.
\<close>

definition toggleAttendance :: "string \<Rightarrow> string \<Rightarrow> (nat \<Rightarrow> string) \<Rightarrow> App \<Rightarrow> App" where
  "toggleAttendance nm timeStr rnd st =
     (let dayData = dayDataOf (history st) (selectedDate st);
          (updatedDayData, newLogs) = toggleMap nm timeStr (selectedDate st) rnd 0 dayData
      in st\<lparr>history := AList.update (selectedDate st) updatedDayData (history st),
            logs := fold appendLog newLogs (logs st)\<rparr>)"

text \<open>
  \<open>resetAttendance\<close>: \<open>confirmed\<close> is the answer of \<open>window.confirm\<close>; without it
  nothing happens.
\<close>

definition resetAttendance :: "bool \<Rightarrow> App \<Rightarrow> App" where
  "resetAttendance confirmed st =
     (if confirmed
      then st\<lparr>history := AList.update (selectedDate st) (map absent FRIENDS) (history st)\<rparr>
      else st)"

section \<open>User intents\<close>

text \<open>
  The three handlers the page binds: the button of a record calls
  \<open>toggleAttendance(record.name)\<close>, the reset button calls \<open>resetAttendance\<close>, and the
  date input calls \<open>setSelectedDate(e.target.value)\<close>. A session is a list of intents
  applied in order.
\<close>

datatype intent = Toggle string string "nat \<Rightarrow> string" | Reset bool | SelectDate string

fun dispatch :: "intent \<Rightarrow> App \<Rightarrow> App" where
  "dispatch (Toggle nm timeStr rnd) st = toggleAttendance nm timeStr rnd st"
| "dispatch (Reset confirmed) st = resetAttendance confirmed st"
| "dispatch (SelectDate d) st = st\<lparr>selectedDate := d\<rparr>"

text \<open>
  The invariant of the data model: a record is absent exactly when it has no time.
  \<open>storeOk\<close> asks it of every record of every entry of the store.
\<close>

definition recordOk :: "AttendanceRecord \<Rightarrow> bool" where
  "recordOk r = ((isPresent r = False) = (time r = None))"

definition storeOk :: "DailyData \<Rightarrow> bool" where
  "storeOk h = list_all (\<lambda>(d, rs). list_all recordOk rs) h"

section \<open>Errors\<close>

text \<open>
  The two exceptions that the modelled code can raise: \<open>JSON.parse\<close> throws
  \<open>SyntaxError\<close> on malformed text, and formatting an invalid date throws \<open>RangeError\<close>.
\<close>

datatype error = SyntaxError | RangeError

section \<open>Friend statistics\<close>

text \<open>
  \<open>friendStats\<close>: for every roster name the loop over \<open>Object.values(history)\<close> counts the
  days on which \<open>find\<close> returns a record of that name with \<open>isPresent\<close>; the list is then
  sorted with the comparator \<open>(a, b) => b.total - a.total\<close>. \<open>Array.prototype.sort\<close> is
  stable, and a stable sort by a consistent comparator has one result, computed here by
  insertion: an element goes in front of the first element it does not compare greater to.
\<close>

record FriendStat =
  f_name :: string
  total :: nat

definition totalPresent :: "DailyData \<Rightarrow> string \<Rightarrow> nat" where
  "totalPresent h n =
     fold (\<lambda>records totalPresent.
             if find (\<lambda>r. name r = n \<and> isPresent r) records \<noteq> None
             then totalPresent + 1 else totalPresent)
          (map snd h) 0"

fun insertBy :: "('a \<Rightarrow> 'a \<Rightarrow> int) \<Rightarrow> 'a \<Rightarrow> 'a list \<Rightarrow> 'a list" where
  "insertBy cmp x [] = [x]"
| "insertBy cmp x (y # ys) = (if cmp x y \<le> 0 then x # y # ys else y # insertBy cmp x ys)"

definition sortBy :: "('a \<Rightarrow> 'a \<Rightarrow> int) \<Rightarrow> 'a list \<Rightarrow> 'a list" where
  "sortBy cmp xs = foldr (insertBy cmp) xs []"

definition friendStats :: "DailyData \<Rightarrow> FriendStat list" where
  "friendStats h =
     sortBy (\<lambda>a b. int (total b) - int (total a))
       (map (\<lambda>n. \<lparr>f_name = n, total = totalPresent h n\<rparr>) FRIENDS)"

text \<open>A day has a record of the given name that is present.\<close>

definition presentOn :: "string \<Rightarrow> AttendanceRecord list \<Rightarrow> bool" where
  "presentOn n rs = (\<exists>r \<in> set rs. name r = n \<and> isPresent r)"

section \<open>Calendar days\<close>

text \<open>
  A \<open>Date\<close> is used by the statistics only through its local calendar day, which is
  modelled as the number of days since 1970-01-01 (a Thursday). \<open>getDay\<close> is the weekday
  with 0 for Sunday. \<open>startOfWeek\<close> is date-fns \<open>startOfWeek(date, { weekStartsOn: 1 })\<close>,
  \<open>addDays\<close> and \<open>isSameDay\<close> are the date-fns functions of these names.
\<close>

definition getDay :: "int \<Rightarrow> int" where
  "getDay n = (n + 4) mod 7"

definition startOfWeek :: "int \<Rightarrow> int" where
  "startOfWeek n =
     (let day = getDay n;
          diff = (if day < 1 then 7 else 0) + day - 1
      in n - diff)"

definition addDays :: "int \<Rightarrow> int \<Rightarrow> int" where
  "addDays n amount = n + amount"

definition isSameDay :: "int \<Rightarrow> int \<Rightarrow> bool" where
  "isSameDay a b = (a = b)"

text \<open>
  The proleptic Gregorian calendar of \<open>Date\<close>: the civil date (year, month, day) of a day
  number and back, and the length of a month. Days are counted in eras of 400 years that
  begin on 1 March; \<open>yearStart\<close> is the first day of a year of the era, \<open>yearOfEra\<close> the
  year a day of the era lies in, and \<open>monthStart\<close> the first day of a month counted from
  March.
\<close>

definition yearOfEra :: "int \<Rightarrow> int" where
  "yearOfEra doe = (doe - doe div 1460 + doe div 36524 - doe div 146096) div 365"

definition yearStart :: "int \<Rightarrow> int" where
  "yearStart yoe = 365 * yoe + yoe div 4 - yoe div 100"

definition monthStart :: "int \<Rightarrow> int" where
  "monthStart mp = (153 * mp + 2) div 5"

definition civilFromDays :: "int \<Rightarrow> int \<times> int \<times> int" where
  "civilFromDays n =
     (let z = n + 719468;
          era = z div 146097;
          doe = z - era * 146097;
          yoe = yearOfEra doe;
          doy = doe - yearStart yoe;
          mp = (5 * doy + 2) div 153;
          d = doy - monthStart mp + 1;
          m = (if mp < 10 then mp + 3 else mp - 9);
          y = yoe + era * 400 + (if m \<le> 2 then 1 else 0)
      in (y, m, d))"

definition daysFromCivil :: "int \<Rightarrow> int \<Rightarrow> int \<Rightarrow> int" where
  "daysFromCivil y m d =
     (let y' = (if m \<le> 2 then y - 1 else y);
          era = y' div 400;
          yoe = y' - era * 400;
          mp = (if m > 2 then m - 3 else m + 9);
          doy = monthStart mp + d - 1;
          doe = yearStart yoe + doy
      in era * 146097 + doe - 719468)"

definition daysInMonth :: "int \<Rightarrow> int \<Rightarrow> int" where
  "daysInMonth y m =
     (if m = 2 then (if y mod 4 = 0 \<and> (y mod 100 \<noteq> 0 \<or> y mod 400 = 0) then 29 else 28)
      else if m = 4 \<or> m = 6 \<or> m = 9 \<or> m = 11 then 30 else 31)"

text \<open>
  \<open>format(date, 'yyyy-MM-dd')\<close>: date-fns writes the year of the era (\<open>1 - year\<close> for a
  year that is not positive) and pads each field with zeros to its width.
  \<open>format(date, 'EEE', { locale: id })\<close> is the short Indonesian weekday name.
\<close>

definition digitChar :: "nat \<Rightarrow> char" where
  "digitChar k = ''0123456789'' ! (k mod 10)"

definition digitValue :: "char \<Rightarrow> int option" where
  "digitValue c = map_of [(CHR ''0'', 0), (CHR ''1'', 1), (CHR ''2'', 2), (CHR ''3'', 3),
     (CHR ''4'', 4), (CHR ''5'', 5), (CHR ''6'', 6), (CHR ''7'', 7), (CHR ''8'', 8),
     (CHR ''9'', 9)] c"

fun decimal :: "nat \<Rightarrow> string" where
  "decimal k = (if k < 10 then [digitChar k] else decimal (k div 10) @ [digitChar k])"

declare decimal.simps [simp del]

definition addLeadingZeros :: "nat \<Rightarrow> nat \<Rightarrow> string" where
  "addLeadingZeros k targetLength =
     replicate (targetLength - length (decimal k)) CHR ''0'' @ decimal k"

definition format_yyyy_MM_dd :: "int \<Rightarrow> string" where
  "format_yyyy_MM_dd n =
     (case civilFromDays n of (signedYear, m, d) \<Rightarrow>
        let year = (if signedYear > 0 then signedYear else 1 - signedYear)
        in addLeadingZeros (nat year) 4 @ ''-'' @ addLeadingZeros (nat m) 2 @ ''-''
           @ addLeadingZeros (nat d) 2)"

definition format_EEE_id :: "int \<Rightarrow> string" where
  "format_EEE_id n = [''Min'', ''Sen'', ''Sel'', ''Rab'', ''Kam'', ''Jum'', ''Sab''] ! nat (getDay n)"

text \<open>
  \<open>parseISO\<close> on the calendar-date form \<open>YYYY-MM-DD\<close>, the only form \<open>weeklyStats\<close>
  produces for the years 0001 to 9999; \<open>None\<close> is the invalid date that date-fns returns
  for text it cannot read, taken here for every other text.
\<close>

fun number :: "string \<Rightarrow> int option" where
  "number [] = None"
| "number cs = fold (\<lambda>c acc. case (acc, digitValue c) of (Some a, Some v) \<Rightarrow> Some (10 * a + v) | _ \<Rightarrow> None) cs (Some 0)"

definition parseISO :: "string \<Rightarrow> int option" where
  "parseISO s =
     (case s of
        [y1, y2, y3, y4, s1, m1, m2, s2, d1, d2] \<Rightarrow>
          (if s1 = CHR ''-'' \<and> s2 = CHR ''-'' then
             (case (number [y1, y2, y3, y4], number [m1, m2], number [d1, d2]) of
                (Some y, Some m, Some d) \<Rightarrow>
                  if 1 \<le> m \<and> m \<le> 12 \<and> 1 \<le> d \<and> d \<le> daysInMonth y m
                  then Some (daysFromCivil y m d) else None
              | _ \<Rightarrow> None)
           else None)
      | _ \<Rightarrow> None)"

section \<open>Weekly statistics\<close>

text \<open>
  \<open>weeklyStats\<close> reads the clock once for the start of the week and once for the
  \<open>isToday\<close> flag of each of the seven entries: \<open>clock 0\<close> is the local day of the first
  \<open>new Date()\<close>, \<open>clock (i + 1)\<close> the one read for entry \<open>i\<close>. Formatting the week-day
  name of an invalid date raises \<open>RangeError\<close>.
\<close>

record WeeklyStat =
  w_name :: string
  fullDate :: string
  count :: nat
  isToday :: bool

definition weeklyEntry :: "DailyData \<Rightarrow> string \<Rightarrow> int \<Rightarrow> int \<Rightarrow> WeeklyStat" where
  "weeklyEntry h dateStr parsed now =
     (let dayData = (case map_of h dateStr of Some rs \<Rightarrow> rs | None \<Rightarrow> [])
      in \<lparr>w_name = format_EEE_id parsed, fullDate = dateStr,
          count = length (filter isPresent dayData),
          isToday = isSameDay parsed now\<rparr>)"

fun weeklyEntries :: "(nat \<Rightarrow> int) \<Rightarrow> DailyData \<Rightarrow> nat \<Rightarrow> string list \<Rightarrow> error + WeeklyStat list" where
  "weeklyEntries clock h k [] = Inr []"
| "weeklyEntries clock h k (dateStr # rest) =
     (case parseISO dateStr of
        None \<Rightarrow> Inl RangeError
      | Some parsed \<Rightarrow>
          (case weeklyEntries clock h (Suc k) rest of
             Inl e \<Rightarrow> Inl e
           | Inr entries \<Rightarrow> Inr (weeklyEntry h dateStr parsed (clock k) # entries)))"

definition weeklyStats :: "(nat \<Rightarrow> int) \<Rightarrow> DailyData \<Rightarrow> error + WeeklyStat list" where
  "weeklyStats clock h =
     (let start = startOfWeek (clock 0);
          days = map (\<lambda>i. format_yyyy_MM_dd (addDays start (int i))) [0..<7]
      in weeklyEntries clock h 1 days)"

section \<open>Persisted state\<close>

text \<open>
  \<open>JSON.parse\<close> as a lexer followed by a pushdown recogniser that builds the value. The
  grammar is that of ECMA-404: the four white-space characters, the six structural
  characters, strings with the escapes of the quote, the backslash, the slash, \<open>b\<close>,
  \<open>f\<close>, \<open>n\<close>, \<open>r\<close>, \<open>t\<close> and \<open>u\<close> with four hexadecimal digits and no
  control character, numbers, and the three
  literals. A number is kept as its text and a string as the text between its quotes.
\<close>

datatype json =
    JNull
  | JBool bool
  | JNumber string
  | JString string
  | JArray "json list"
  | JObject "(string \<times> json) list"

datatype token =
    TLBrace | TRBrace | TLBracket | TRBracket | TColon | TComma
  | TString string | TNumber string | TTrue | TFalse | TNull

datatype numState = NMinus | NZero | NInt | NDot | NFrac | NExp | NExpSign | NExpDigits

datatype lexState =
    Start
  | InString string
  | InEscape string
  | InUnicode nat string
  | InNumber numState string
  | InLiteral string token

definition isWhitespace :: "char \<Rightarrow> bool" where
  "isWhitespace c = (c = CHR '' '' \<or> c = CHR 0x09 \<or> c = CHR 0x0A \<or> c = CHR 0x0D)"

definition isDigit :: "char \<Rightarrow> bool" where
  "isDigit c = (c \<in> set ''0123456789'')"

definition isHexDigit :: "char \<Rightarrow> bool" where
  "isHexDigit c = (c \<in> set ''0123456789abcdefABCDEF'')"

definition accepting :: "numState \<Rightarrow> bool" where
  "accepting s = (s = NZero \<or> s = NInt \<or> s = NFrac \<or> s = NExpDigits)"

definition startChar :: "char \<Rightarrow> error + token list \<times> lexState" where
  "startChar c =
     (if isWhitespace c then Inr ([], Start)
      else if c = CHR ''{'' then Inr ([TLBrace], Start)
      else if c = CHR ''}'' then Inr ([TRBrace], Start)
      else if c = CHR ''['' then Inr ([TLBracket], Start)
      else if c = CHR '']'' then Inr ([TRBracket], Start)
      else if c = CHR '':'' then Inr ([TColon], Start)
      else if c = CHR '','' then Inr ([TComma], Start)
      else if c = CHR 0x22 then Inr ([], InString [])
      else if c = CHR ''-'' then Inr ([], InNumber NMinus [c])
      else if c = CHR ''0'' then Inr ([], InNumber NZero [c])
      else if isDigit c then Inr ([], InNumber NInt [c])
      else if c = CHR ''t'' then Inr ([], InLiteral ''rue'' TTrue)
      else if c = CHR ''f'' then Inr ([], InLiteral ''alse'' TFalse)
      else if c = CHR ''n'' then Inr ([], InLiteral ''ull'' TNull)
      else Inl SyntaxError)"

definition numberChar :: "numState \<Rightarrow> char \<Rightarrow> numState option" where
  "numberChar s c =
     (if isDigit c then
        (case s of
           NMinus \<Rightarrow> Some (if c = CHR ''0'' then NZero else NInt)
         | NZero \<Rightarrow> None
         | NInt \<Rightarrow> Some NInt
         | NDot \<Rightarrow> Some NFrac
         | NFrac \<Rightarrow> Some NFrac
         | NExp \<Rightarrow> Some NExpDigits
         | NExpSign \<Rightarrow> Some NExpDigits
         | NExpDigits \<Rightarrow> Some NExpDigits)
      else if c = CHR ''.'' \<and> (s = NZero \<or> s = NInt) then Some NDot
      else if (c = CHR ''e'' \<or> c = CHR ''E'') \<and> (s = NZero \<or> s = NInt \<or> s = NFrac) then Some NExp
      else if (c = CHR ''+'' \<or> c = CHR ''-'') \<and> s = NExp then Some NExpSign
      else None)"

fun lexStep :: "lexState \<Rightarrow> char \<Rightarrow> error + token list \<times> lexState" where
  "lexStep Start c = startChar c"
| "lexStep (InString acc) c =
     (if c = CHR 0x22 then Inr ([TString (rev acc)], Start)
      else if c = CHR 0x5C then Inr ([], InEscape (c # acc))
      else if (of_char c :: nat) < 32 then Inl SyntaxError
      else Inr ([], InString (c # acc)))"
| "lexStep (InEscape acc) c =
     (if c \<in> set [CHR 0x22, CHR 0x5C, CHR ''/'', CHR ''b'', CHR ''f'', CHR ''n'', CHR ''r'', CHR ''t'']
      then Inr ([], InString (c # acc))
      else if c = CHR ''u'' then Inr ([], InUnicode 4 (c # acc))
      else Inl SyntaxError)"
| "lexStep (InUnicode k acc) c =
     (if isHexDigit c
      then (if k \<le> 1 then Inr ([], InString (c # acc)) else Inr ([], InUnicode (k - 1) (c # acc)))
      else Inl SyntaxError)"
| "lexStep (InNumber s acc) c =
     (case numberChar s c of
        Some s' \<Rightarrow> Inr ([], InNumber s' (c # acc))
      | None \<Rightarrow>
          if isDigit c \<or> \<not> accepting s then Inl SyntaxError
          else (case startChar c of
                  Inl e \<Rightarrow> Inl e
                | Inr (ts, st) \<Rightarrow> Inr (TNumber (rev acc) # ts, st)))"
| "lexStep (InLiteral expected tok) c =
     (case expected of
        [] \<Rightarrow> Inl SyntaxError
      | x # xs \<Rightarrow>
          if c \<noteq> x then Inl SyntaxError
          else if xs = [] then Inr ([tok], Start)
          else Inr ([], InLiteral xs tok))"

fun lexFinish :: "lexState \<Rightarrow> error + token list" where
  "lexFinish Start = Inr []"
| "lexFinish (InNumber s acc) = (if accepting s then Inr [TNumber (rev acc)] else Inl SyntaxError)"
| "lexFinish _ = Inl SyntaxError"

fun lexRun :: "lexState \<Rightarrow> string \<Rightarrow> error + token list" where
  "lexRun st [] = lexFinish st"
| "lexRun st (c # cs) =
     (case lexStep st c of
        Inl e \<Rightarrow> Inl e
      | Inr (ts, st') \<Rightarrow>
          (case lexRun st' cs of Inl e \<Rightarrow> Inl e | Inr ts' \<Rightarrow> Inr (ts @ ts')))"

text \<open>
  The recogniser keeps a stack of the containers that are open. A \<open>FKey\<close> frame on an
  object frame holds the key whose value is being read.
\<close>

datatype frame = FArray "json list" | FObject "(string \<times> json) list" | FKey string

datatype mode = MValue | MValueOrClose | MKey | MKeyOrClose | MColon | MAfter | MDone json

fun scalar :: "token \<Rightarrow> json option" where
  "scalar (TString s) = Some (JString s)"
| "scalar (TNumber s) = Some (JNumber s)"
| "scalar TTrue = Some (JBool True)"
| "scalar TFalse = Some (JBool False)"
| "scalar TNull = Some JNull"
| "scalar _ = None"

fun complete :: "json \<Rightarrow> frame list \<Rightarrow> (mode \<times> frame list) option" where
  "complete v [] = Some (MDone v, [])"
| "complete v (FArray vs # st) = Some (MAfter, FArray (v # vs) # st)"
| "complete v (FKey k # FObject ms # st) = Some (MAfter, FObject ((k, v) # ms) # st)"
| "complete v _ = None"

fun parseStep :: "mode \<Rightarrow> frame list \<Rightarrow> token \<Rightarrow> (mode \<times> frame list) option" where
  "parseStep (MDone v) st t = None"
| "parseStep MColon st t = (if t = TColon then Some (MValue, st) else None)"
| "parseStep MAfter (FArray vs # st) t =
     (if t = TComma then Some (MValue, FArray vs # st)
      else if t = TRBracket then complete (JArray (rev vs)) st
      else None)"
| "parseStep MAfter (FObject ms # st) t =
     (if t = TComma then Some (MKey, FObject ms # st)
      else if t = TRBrace then complete (JObject (rev ms)) st
      else None)"
| "parseStep MAfter st t = None"
| "parseStep MKey st t = (case t of TString k \<Rightarrow> Some (MColon, FKey k # st) | _ \<Rightarrow> None)"
| "parseStep MKeyOrClose st t =
     (case t of
        TString k \<Rightarrow> Some (MColon, FKey k # st)
      | TRBrace \<Rightarrow> (case st of FObject ms # st' \<Rightarrow> complete (JObject (rev ms)) st' | _ \<Rightarrow> None)
      | _ \<Rightarrow> None)"
| "parseStep m st t =
     (case scalar t of
        Some v \<Rightarrow> complete v st
      | None \<Rightarrow>
          if t = TLBracket then Some (MValueOrClose, FArray [] # st)
          else if t = TLBrace then Some (MKeyOrClose, FObject [] # st)
          else if t = TRBracket \<and> m = MValueOrClose
          then (case st of FArray vs # st' \<Rightarrow> complete (JArray (rev vs)) st' | _ \<Rightarrow> None)
          else None)"

fun parseTokens :: "mode \<Rightarrow> frame list \<Rightarrow> token list \<Rightarrow> error + json" where
  "parseTokens m st [] = (case m of MDone v \<Rightarrow> Inr v | _ \<Rightarrow> Inl SyntaxError)"
| "parseTokens m st (t # ts) =
     (case parseStep m st t of
        None \<Rightarrow> Inl SyntaxError
      | Some (m', st') \<Rightarrow> parseTokens m' st' ts)"

definition JSON_parse :: "string \<Rightarrow> error + json" where
  "JSON_parse text =
     (case lexRun Start text of Inl e \<Rightarrow> Inl e | Inr ts \<Rightarrow> parseTokens MValue [] ts)"

text \<open>
  The initialisers of \<open>history\<close> and \<open>logs\<close>. \<open>getItem\<close> is
  \<open>localStorage.getItem\<close>, with \<open>None\<close> for \<open>null\<close>; a saved text is used when it is
  truthy, that is, not empty. Neither initialiser catches what \<open>JSON.parse\<close> throws, so
  the first failure is the outcome of the start.
\<close>

definition loadHistory :: "(string \<rightharpoonup> string) \<Rightarrow> error + json" where
  "loadHistory getItem =
     (case getItem ''attendance_history_v2'' of
        None \<Rightarrow> Inr (JObject [])
      | Some saved \<Rightarrow> if saved \<noteq> [] then JSON_parse saved else Inr (JObject []))"

definition loadLogs :: "(string \<rightharpoonup> string) \<Rightarrow> error + json" where
  "loadLogs getItem =
     (case getItem ''attendance_logs_v2'' of
        None \<Rightarrow> Inr (JArray [])
      | Some saved \<Rightarrow> if saved \<noteq> [] then JSON_parse saved else Inr (JArray []))"

definition startup :: "(string \<rightharpoonup> string) \<Rightarrow> error + json \<times> json" where
  "startup getItem =
     (case loadHistory getItem of
        Inl e \<Rightarrow> Inl e
      | Inr h \<Rightarrow> (case loadLogs getItem of Inl e \<Rightarrow> Inl e | Inr l \<Rightarrow> Inr (h, l)))"

section \<open>Sample inputs\<close>

text \<open>The state of a first start: nothing stored, one date selected.\<close>

definition emptyApp :: App where
  "emptyApp = \<lparr>history = [], logs = [], selectedDate = ''2024-03-10''\<rparr>"

text \<open>Sample inputs: an identifier source, a state with one check-in, numbered log entries.\<close>

definition exampleRnd :: "nat \<Rightarrow> string" where
  "exampleRnd k = ''k3j9x0a1b''"

definition exampleApp :: App where
  "exampleApp = \<lparr>history = [(''2024-03-10'',
            [absent ''Yolanda'', absent ''Fadhil'',
             \<lparr>name = ''Nisa'', time = Some ''08:15:00'', isPresent = True\<rparr>,
             absent ''Aurel'', absent ''Jihan'', absent ''Alisa'', absent ''Opang'',
             absent ''Clara'', absent ''Caca''])],
          logs = [\<lparr>log_id = ''k3j9x0a1b'', log_name = ''Nisa'', action = masuk,
                   log_time = ''08:15:00'', log_date = ''2024-03-10''\<rparr>],
          selectedDate = ''2024-03-10''\<rparr>"

definition numberedEntry :: "nat \<Rightarrow> LogEntry" where
  "numberedEntry k = \<lparr>log_id = replicate (Suc k) CHR ''z'', log_name = ''Nisa'',
      action = (if even k then masuk else keluar), log_time = ''08:15:00'', log_date = ''2024-03-10''\<rparr>"

text \<open>A history of three days, a clock that stands on 2024-03-10, and three stores.\<close>

definition arrived :: "string \<Rightarrow> string \<Rightarrow> AttendanceRecord" where
  "arrived n t = \<lparr>name = n, time = Some t, isPresent = True\<rparr>"

definition exampleHistory :: DailyData where
  "exampleHistory =
     [(''2024-03-08'',
       [absent ''Yolanda'', absent ''Fadhil'', absent ''Nisa'', absent ''Aurel'', absent ''Jihan'',
        absent ''Alisa'', absent ''Opang'', absent ''Clara'', arrived ''Caca'' ''07:00:00'']),
      (''2024-03-09'',
       [absent ''Yolanda'', arrived ''Fadhil'' ''06:45:10'', absent ''Nisa'', absent ''Aurel'',
        absent ''Jihan'', absent ''Alisa'', absent ''Opang'', absent ''Clara'',
        arrived ''Caca'' ''07:02:30'']),
      (''2024-03-10'',
       [absent ''Yolanda'', absent ''Fadhil'', arrived ''Nisa'' ''08:15:00'', absent ''Aurel'',
        absent ''Jihan'', absent ''Alisa'', absent ''Opang'', absent ''Clara'',
        arrived ''Caca'' ''06:59:59''])]"

definition exampleClock :: "nat \<Rightarrow> int" where
  "exampleClock k = 19792"

text \<open>A clock that passes midnight after its first reading, from 2024-03-10 to 2024-03-11.\<close>

definition midnightClock :: "nat \<Rightarrow> int" where
  "midnightClock k = (if k = 0 then 19792 else 19793)"

definition corruptStorage :: "string \<rightharpoonup> string" where
  "corruptStorage = map_of
     [(''attendance_history_v2'', ''{\"2024-03-10\":[{\"name\":\"Nisa\",\"time\":\"08:1''),
      (''attendance_logs_v2'', ''[]'')]"

definition savedStorage :: "string \<rightharpoonup> string" where
  "savedStorage = map_of
     [(''attendance_history_v2'',
       ''{\"2024-03-10\":[{\"name\":\"Nisa\",\"time\":\"08:15:00\",\"isPresent\":true}]}''),
      (''attendance_logs_v2'', ''[]'')]"

definition corruptLogStorage :: "string \<rightharpoonup> string" where
  "corruptLogStorage = map_of
     [(''attendance_history_v2'', ''{}''),
      (''attendance_logs_v2'', ''[object Object]'')]"

section \<open>Facts about the operations\<close>

subsection \<open>The roster and the toggle\<close>

lemma length_FRIENDS: "length FRIENDS = 9"
  by (simp add: FRIENDS_def)

lemma distinct_FRIENDS: "distinct FRIENDS"
  by (simp add: FRIENDS_def)

lemma fst_toggleMap:
  "fst (toggleMap nm t d rnd k rs) =
     map (\<lambda>r. if name r = nm
               then r\<lparr>isPresent := \<not> isPresent r, time := (if isPresent r then None else Some t)\<rparr>
               else r) rs"
  by (induction rs arbitrary: k) (simp_all add: Let_def case_prod_unfold)

lemma snd_toggleMap_none:
  "nm \<notin> name ` set rs \<Longrightarrow> snd (toggleMap nm t d rnd k rs) = []"
  by (induction rs arbitrary: k) (auto simp add: Let_def case_prod_unfold)

lemma map_toggle_none:
  "nm \<notin> name ` set rs \<Longrightarrow> map (\<lambda>r. if name r = nm then f r else r) rs = rs"
  by (induction rs) auto

lemma snd_toggleMap_one:
  "distinct (map name rs) \<Longrightarrow> i < length rs \<Longrightarrow> name (rs ! i) = nm \<Longrightarrow>
   snd (toggleMap nm t d rnd k rs) =
     [\<lparr>log_id = rnd k, log_name = nm, action = (if isPresent (rs ! i) then keluar else masuk),
       log_time = t, log_date = d\<rparr>]"
proof (induction rs arbitrary: i k)
  case Nil
  then show ?case by simp
next
  case (Cons r rs)
  show ?case
  proof (cases i)
    case 0
    with Cons.prems have "name r = nm" and "nm \<notin> name ` set rs" by auto
    then show ?thesis using 0
      by (simp add: Let_def snd_toggleMap_none case_prod_unfold)
  next
    case (Suc j)
    with Cons.prems have "name r \<noteq> nm" by auto
    moreover have "snd (toggleMap nm t d rnd k rs) =
      [\<lparr>log_id = rnd k, log_name = nm, action = (if isPresent (rs ! j) then keluar else masuk),
       log_time = t, log_date = d\<rparr>]"
      using Cons.IH[of j k] Cons.prems Suc by simp
    ultimately show ?thesis using Suc by (simp add: Let_def case_prod_unfold)
  qed
qed

lemma map_toggle_one:
  "distinct (map name rs) \<Longrightarrow> i < length rs \<Longrightarrow> name (rs ! i) = nm \<Longrightarrow>
   map (\<lambda>r. if name r = nm then f r else r) rs = rs[i := f (rs ! i)]"
proof (induction rs arbitrary: i)
  case Nil
  then show ?case by simp
next
  case (Cons r rs)
  show ?case
  proof (cases i)
    case 0
    with Cons.prems have "name r = nm" and "nm \<notin> name ` set rs" by auto
    then show ?thesis using 0 by (simp add: map_toggle_none)
  next
    case (Suc j)
    with Cons.prems have "name r \<noteq> nm" by auto
    then show ?thesis using Suc Cons.IH[of j] Cons.prems by simp
  qed
qed

lemma toggleAttendance_history:
  "history (toggleAttendance nm t rnd st) =
     AList.update (selectedDate st)
       (map (\<lambda>r. if name r = nm
               then r\<lparr>isPresent := \<not> isPresent r, time := (if isPresent r then None else Some t)\<rparr>
               else r) (currentAttendance st)) (history st)"
  using fst_toggleMap[of nm t "selectedDate st" rnd 0 "currentAttendance st"]
  by (simp add: toggleAttendance_def currentAttendance_def Let_def case_prod_unfold)

lemma toggleAttendance_logs:
  "logs (toggleAttendance nm t rnd st) =
     fold appendLog (snd (toggleMap nm t (selectedDate st) rnd 0 (currentAttendance st))) (logs st)"
  by (simp add: toggleAttendance_def currentAttendance_def Let_def case_prod_unfold)

lemma toggleAttendance_selectedDate:
  "selectedDate (toggleAttendance nm t rnd st) = selectedDate st"
  by (simp add: toggleAttendance_def Let_def case_prod_unfold)

lemma dayDataOf_update:
  "dayDataOf (AList.update d rs h) d' = (if d' = d then rs else dayDataOf h d')"
  by (simp add: dayDataOf_def update_conv')

subsection \<open>Appending to the log\<close>

lemma take_append_take: "take n (xs @ take n ys) = take n (xs @ ys)"
  by (simp add: min_def)

lemma appendLog_fold: "fold appendLog es (appendLog e l) = take 100 (rev es @ e # l)"
proof (induction es arbitrary: e l)
  case Nil
  show ?case by (simp add: appendLog_def)
next
  case (Cons e' es)
  have "fold appendLog (e' # es) (appendLog e l) = fold appendLog es (appendLog e' (appendLog e l))"
    by simp
  also have "\<dots> = take 100 ((rev es @ [e']) @ take 100 (e # l))"
    by (simp only: Cons.IH appendLog_def[of e l]) simp
  also have "\<dots> = take 100 ((rev es @ [e']) @ e # l)"
    by (rule take_append_take)
  finally show ?case by simp
qed

subsection \<open>Preservation of the record invariant\<close>

lemma set_update_subset: "set (AList.update k v al) \<subseteq> insert (k, v) (set al)"
  by (induction al) auto

lemma storeOk_update:
  "storeOk h \<Longrightarrow> list_all recordOk rs \<Longrightarrow> storeOk (AList.update d rs h)"
  using set_update_subset[of d rs h] by (auto simp: storeOk_def list_all_iff)

lemma recordOk_default: "list_all recordOk (map absent FRIENDS)"
  by (simp add: list_all_iff recordOk_def absent_def)

lemma recordOk_dayDataOf: "storeOk h \<Longrightarrow> list_all recordOk (dayDataOf h d)"
  using recordOk_default
  by (auto simp: dayDataOf_def storeOk_def list_all_iff split: option.splits dest!: map_of_SomeD)

lemma storeOk_toggle: "storeOk (history st) \<Longrightarrow> storeOk (history (toggleAttendance p t rnd st))"
  unfolding toggleAttendance_history
  using recordOk_dayDataOf[of "history st" "selectedDate st"]
  by (intro storeOk_update) (auto simp: list_all_iff recordOk_def currentAttendance_def)

lemma storeOk_reset: "storeOk (history st) \<Longrightarrow> storeOk (history (resetAttendance c st))"
  by (simp add: resetAttendance_def storeOk_update recordOk_default)

lemma storeOk_dispatch: "storeOk (history st) \<Longrightarrow> storeOk (history (dispatch ev st))"
  by (cases ev) (simp_all add: storeOk_toggle storeOk_reset)

lemma storeOk_run: "storeOk (history st) \<Longrightarrow> storeOk (history (fold dispatch evs st))"
  by (induction evs arbitrary: st) (simp_all add: storeOk_dispatch)

lemma distinct_numbered: "distinct (map numberedEntry [0..<n])"
  by (simp add: distinct_map inj_on_def numberedEntry_def)

subsection \<open>Counting present days and sorting\<close>

text \<open>
  The comparator sort equals the library's stable \<open>sort_key\<close> on the negated total, which
  gives sortedness and stability.
\<close>

lemma find_present: "(find (\<lambda>r. name r = n \<and> isPresent r) rs \<noteq> None) = presentOn n rs"
  by (auto simp: find_None_iff presentOn_def)

lemma fold_count: "fold (\<lambda>x c. if P x then c + 1 else c) xs (k::nat) = k + length (filter P xs)"
  by (induction xs arbitrary: k) auto

lemma totalPresent_filter:
  "totalPresent h n = length (filter (\<lambda>p. presentOn n (snd p)) h)"
  unfolding totalPresent_def find_present
  by (simp add: fold_count filter_map comp_def)

lemma keys_of_filter:
  assumes "distinct (map fst h)"
  shows "{d. \<exists>rs. map_of h d = Some rs \<and> P rs} = fst ` set (filter (\<lambda>p. P (snd p)) h)"
proof (intro set_eqI iffI)
  fix d assume "d \<in> {d. \<exists>rs. map_of h d = Some rs \<and> P rs}"
  then obtain rs where "map_of h d = Some rs" "P rs" by blast
  then have "(d, rs) \<in> set h" by (auto dest: map_of_SomeD)
  with \<open>P rs\<close> show "d \<in> fst ` set (filter (\<lambda>p. P (snd p)) h)" by force
next
  fix d assume "d \<in> fst ` set (filter (\<lambda>p. P (snd p)) h)"
  then obtain rs where "(d, rs) \<in> set h" "P rs" by auto
  with assms have "map_of h d = Some rs" by simp
  with \<open>P rs\<close> show "d \<in> {d. \<exists>rs. map_of h d = Some rs \<and> P rs}" by blast
qed

lemma totalPresent_card:
  assumes "distinct (map fst h)"
  shows "totalPresent h n = card {d. \<exists>rs. map_of h d = Some rs \<and> presentOn n rs}"
proof -
  have "distinct (map fst (filter (\<lambda>p. presentOn n (snd p)) h))"
    using assms by (rule distinct_map_filter)
  then have "card (fst ` set (filter (\<lambda>p. presentOn n (snd p)) h)) =
        length (filter (\<lambda>p. presentOn n (snd p)) h)"
    using distinct_card[of "map fst (filter (\<lambda>p. presentOn n (snd p)) h)"] by simp
  then show ?thesis
    by (simp add: totalPresent_filter keys_of_filter[OF assms])
qed

lemma insertBy_insort:
  "insertBy (\<lambda>a b. int (total b) - int (total a)) x ys = insort_key (\<lambda>s. - int (total s)) x ys"
  by (induction ys) auto

lemma sortBy_sort_key:
  "sortBy (\<lambda>a b. int (total b) - int (total a)) xs = sort_key (\<lambda>s. - int (total s)) xs"
  by (induction xs) (simp_all add: sortBy_def insertBy_insort)

lemma friendStats_sort_key:
  "friendStats h =
     sort_key (\<lambda>s. - int (total s)) (map (\<lambda>n. \<lparr>f_name = n, total = totalPresent h n\<rparr>) FRIENDS)"
  by (simp add: friendStats_def sortBy_sort_key)

lemma friendStats_set:
  "set (friendStats h) = (\<lambda>n. \<lparr>f_name = n, total = totalPresent h n\<rparr>) ` set FRIENDS"
  by (simp add: friendStats_sort_key)

lemma friendStats_sorted: "sorted_wrt (\<lambda>a b. total b \<le> total a) (friendStats h)"
proof -
  have "sorted (map (\<lambda>s. - int (total s)) (friendStats h))"
    unfolding friendStats_sort_key by (rule sorted_sort_key)
  then show ?thesis by (simp add: sorted_map sorted_wrt_iff_nth_less)
qed

lemma friendStats_ties:
  "map f_name (filter (\<lambda>s. total s = k) (friendStats h)) =
     filter (\<lambda>n. totalPresent h n = k) FRIENDS"
proof -
  have "filter (\<lambda>s. total s = k) (friendStats h) =
      filter (\<lambda>s. - int (total s) = - int k) (friendStats h)"
    by simp
  also have "\<dots> = filter (\<lambda>s. - int (total s) = - int k)
      (map (\<lambda>n. \<lparr>f_name = n, total = totalPresent h n\<rparr>) FRIENDS)"
    unfolding friendStats_sort_key by (rule sort_key_stable)
  finally show ?thesis by (simp add: filter_map comp_def)
qed

subsection \<open>The week of a day\<close>

lemma seven: "[0..<7] = [0, 1, 2, 3, 4, 5, 6::nat]"
  by (simp add: upt_conv_Cons)

lemma seven1: "[1..<8] = [1, 2, 3, 4, 5, 6, 7::nat]"
  by (simp add: upt_conv_Cons)

lemma one_today:
  assumes "s \<le> t" "t \<le> s + 6"
  shows "length (filter (\<lambda>i. s + int i = t) [0..<7]) = 1"
proof -
  from assms have "t = s \<or> t = s + 1 \<or> t = s + 2 \<or> t = s + 3 \<or> t = s + 4 \<or> t = s + 5 \<or> t = s + 6"
    by arith
  then show ?thesis unfolding seven by auto
qed

lemma startOfWeek_eq:
  "startOfWeek n = n - (if getDay n = 0 then 6 else getDay n - 1)"
proof -
  have "0 \<le> getDay n" by (simp add: getDay_def)
  then show ?thesis by (auto simp: startOfWeek_def Let_def)
qed

lemma startOfWeek_bounds:
  "startOfWeek n \<le> n \<and> n \<le> startOfWeek n + 6 \<and> getDay (startOfWeek n) = 1"
proof -
  have lo: "0 \<le> getDay n" and hi: "getDay n < 7" by (simp_all add: getDay_def)
  have mon: "getDay (startOfWeek n) = 1"
  proof (cases "getDay n = 0")
    case True
    have "getDay (n - 6) = ((n + 4) mod 7 - 6) mod 7"
      by (simp add: getDay_def mod_diff_left_eq algebra_simps)
    also have "\<dots> = 1" using True by (simp add: getDay_def)
    finally show ?thesis by (simp add: startOfWeek_eq True)
  next
    case False
    have "getDay (n - (getDay n - 1)) = ((n + 4) mod 7 - (getDay n - 1)) mod 7"
      by (simp only: getDay_def[of "n - ((n + 4) mod 7 - 1)"] mod_diff_left_eq getDay_def[of n])
         (simp add: algebra_simps)
    also have "\<dots> = 1" by (simp add: getDay_def)
    finally show ?thesis by (simp add: startOfWeek_eq False)
  qed
  from lo hi mon show ?thesis by (auto simp: startOfWeek_eq)
qed

lemma getDay_addDays: "getDay (startOfWeek n + int i) = (1 + int i) mod 7"
proof -
  have "startOfWeek n + int i + 4 = (startOfWeek n + 4) + int i" by simp
  then have "getDay (startOfWeek n + int i) = ((startOfWeek n + 4) mod 7 + int i) mod 7"
    unfolding getDay_def by (simp only: mod_add_left_eq)
  also have "(startOfWeek n + 4) mod 7 = 1"
    using startOfWeek_bounds[of n] by (simp add: getDay_def)
  finally show ?thesis .
qed

subsection \<open>The year of a day of the era\<close>

text \<open>
  \<open>yearOfEra\<close> is monotone on an era, and it maps the first and the last day of every
  year of the era to that year; so every day of the era lies in the year it is mapped to.
\<close>

lemma div_lipschitz:
  assumes "0 < k" "a \<le> b"
  shows "b div k - a div k \<le> b - (a::int)"
proof -
  have "(b - a) * 1 \<le> (b - a) * k"
    using assms by (intro mult_left_mono) auto
  then have "b \<le> a + (b - a) * k" by simp
  then have "b div k \<le> (a + (b - a) * k) div k"
    using assms(1) by (intro zdiv_mono1) auto
  also have "\<dots> = a div k + (b - a)"
    using assms(1) by simp
  finally show ?thesis by simp
qed

lemma century_term_mono:
  assumes "0 \<le> a" "a \<le> b" "b \<le> 146096"
  shows "a div 36524 - a div 146096 \<le> b div 36524 - b div (146096::int)"
proof (cases "b = 146096")
  case True
  show ?thesis
  proof (cases "a = b")
    case True
    then show ?thesis by simp
  next
    case False
    with assms True have a: "a \<le> 146095" by simp
    then have "a div 36524 \<le> 146095 div 36524" by (intro zdiv_mono1) auto
    moreover have "a div 146096 = 0" using assms(1) a by simp
    ultimately show ?thesis using True by simp
  qed
next
  case False
  with assms have "b div 146096 = 0" "a div 146096 = 0" by simp_all
  moreover have "a div 36524 \<le> b div 36524" using assms(2) by (intro zdiv_mono1) auto
  ultimately show ?thesis by simp
qed

lemma yearOfEra_mono:
  assumes "0 \<le> a" "a \<le> b" "b \<le> 146096"
  shows "yearOfEra a \<le> yearOfEra b"
proof -
  have "a - a div 1460 + a div 36524 - a div 146096 \<le> b - b div 1460 + b div 36524 - b div 146096"
    using div_lipschitz[of 1460 a b] assms(2) century_term_mono[OF assms] by linarith
  then show ?thesis unfolding yearOfEra_def by (rule zdiv_mono1) simp
qed

lemma div_block:
  assumes "0 \<le> r" "r < k"
  shows "(k * a + r) div k = (a::int)"
proof -
  have "(r + k * a) div k = a + r div k"
    using assms by (subst div_mult_self2) auto
  moreover have "r div k = 0" using assms by simp
  ultimately show ?thesis by (simp add: add.commute)
qed

lemma yearStart_div_1460:
  assumes "0 \<le> y" "y \<le> 399"
  shows "yearStart y div 1460 = y div 4"
    and "1 \<le> y \<Longrightarrow> (yearStart y - 1) div 1460 = y div 4"
proof -
  define a where "a = y div 4"
  define k where "k = y mod 4"
  define c where "c = y div 100"
  have y: "y = 4 * a + k" by (simp add: a_def k_def)
  have k: "0 \<le> k" "k \<le> 3" by (simp_all add: k_def) 
  have a: "0 \<le> a" "a \<le> 99"
    using assms by (simp_all add: a_def) 
  have c: "0 \<le> c" "c \<le> a"
    using assms zdiv_mono2[of y 4 100] by (simp_all add: c_def a_def)
  have c100: "100 * c \<le> y"
    unfolding c_def by (simp add: mult.commute)
  have s: "yearStart y = 1460 * a + (365 * k + a - c)"
    unfolding yearStart_def a_def[symmetric] c_def[symmetric] by (simp add: y)
  show "yearStart y div 1460 = y div 4"
    unfolding s a_def[symmetric] using k a c by (intro div_block) auto
  assume "1 \<le> y"
  then have "1 \<le> 365 * k + a - c"
    using y k a c c100 by linarith
  then have s': "yearStart y - 1 = 1460 * a + (365 * k + a - c - 1)"
    and r: "0 \<le> 365 * k + a - c - 1" "365 * k + a - c - 1 < 1460"
    using s k a c by auto
  show "(yearStart y - 1) div 1460 = y div 4"
    unfolding s' a_def[symmetric] using r by (rule div_block)
qed

lemma yearStart_div_36524:
  assumes "0 \<le> y" "y \<le> 399"
  shows "yearStart y div 36524 = y div 100"
    and "yearStart y \<le> 145731" and "0 \<le> yearStart y"
proof -
  define c where "c = y div 100"
  define r where "r = y mod 100"
  have y: "y = 100 * c + r" by (simp add: c_def r_def)
  have r: "0 \<le> r" "r \<le> 99" by (simp_all add: r_def)
  have c: "0 \<le> c" "c \<le> 3" using assms by (simp_all add: c_def)
  have "(r + 4 * (25 * c)) div 4 = 25 * c + r div 4"
    by (subst div_mult_self2) auto
  then have y4: "y div 4 = 25 * c + r div 4"
    by (simp add: y add.commute)
  have r4: "0 \<le> r div 4" "r div 4 \<le> 24"
    using r by simp_all
  have s: "yearStart y = 36524 * c + (365 * r + r div 4)"
    unfolding yearStart_def y4 c_def[symmetric] by (simp add: y)
  show "yearStart y div 36524 = y div 100"
    unfolding s c_def[symmetric] using r r4 by (intro div_block) auto
  show "yearStart y \<le> 145731" "0 \<le> yearStart y"
    unfolding s using r r4 c by auto
qed

lemma yearOfEra_yearStart:
  assumes "0 \<le> y" "y \<le> 399"
  shows "yearOfEra (yearStart y) = y"
proof -
  have "yearStart y div 146096 = 0"
    using yearStart_div_36524(2,3)[OF assms] by simp
  then have "yearStart y - yearStart y div 1460 + yearStart y div 36524 - yearStart y div 146096
      = 365 * y"
    by (simp add: yearStart_div_1460(1)[OF assms] yearStart_div_36524(1)[OF assms])
       (simp add: yearStart_def)
  then show ?thesis by (simp add: yearOfEra_def)
qed

lemma yearOfEra_before_yearStart:
  assumes "1 \<le> y" "y \<le> 399"
  shows "yearOfEra (yearStart y - 1) = y - 1"
proof -
  have y0: "0 \<le> y" using assms by simp
  have lo: "0 \<le> yearStart y - 1"
  proof -
    have "yearStart 1 \<le> yearStart y"
      unfolding yearStart_def using assms zdiv_mono1[of 1 y 4] zdiv_mono1[of 1 y 100]
        div_lipschitz[of 100 1 y] by simp
    then show ?thesis by (simp add: yearStart_def)
  qed
  have "(yearStart y - 1) div 146096 = 0"
    using yearStart_div_36524(2)[OF y0 assms(2)] lo by simp
  moreover have "yearStart y div 36524 - 1 \<le> (yearStart y - 1) div 36524"
    using div_lipschitz[of 36524 "yearStart y - 1" "yearStart y"] by simp
  moreover have "(yearStart y - 1) div 36524 \<le> yearStart y div 36524"
    by (intro zdiv_mono1) auto
  ultimately have h: "365 * y - 2 \<le> yearStart y - 1 - (yearStart y - 1) div 1460
        + (yearStart y - 1) div 36524 - (yearStart y - 1) div 146096"
    "yearStart y - 1 - (yearStart y - 1) div 1460
        + (yearStart y - 1) div 36524 - (yearStart y - 1) div 146096 \<le> 365 * y - 1"
    unfolding yearStart_div_1460(2)[OF y0 assms(2) assms(1)] yearStart_div_36524(1)[OF y0 assms(2)]
    by (simp_all add: yearStart_def)
  have "yearOfEra (yearStart y - 1) \<le> (365 * y - 1) div 365"
    unfolding yearOfEra_def using h(2) by (intro zdiv_mono1) auto
  also have "(365 * y - 1) div 365 = y - 1"
  proof -
    have "365 * y - 1 = 365 * (y - 1) + 364" by simp
    then show ?thesis using div_block[of 364 365 "y - 1"] by simp
  qed
  finally have up: "yearOfEra (yearStart y - 1) \<le> y - 1" .
  have "(365 * y - 2) div 365 \<le> yearOfEra (yearStart y - 1)"
    unfolding yearOfEra_def using h(1) by (intro zdiv_mono1) auto
  moreover have "(365 * y - 2) div 365 = y - 1"
  proof -
    have "365 * y - 2 = 365 * (y - 1) + 363" by simp
    then show ?thesis using div_block[of 363 365 "y - 1"] by simp
  qed
  ultimately show ?thesis using up by simp
qed

lemma yearOfEra_last: "yearOfEra 146096 = 399"
  by (simp add: yearOfEra_def)

lemma yearOfEra_bracket:
  assumes "0 \<le> doe" "doe \<le> 146096"
  shows "0 \<le> yearOfEra doe" "yearOfEra doe \<le> 399"
    "yearStart (yearOfEra doe) \<le> doe"
    "yearOfEra doe < 399 \<Longrightarrow> doe < yearStart (yearOfEra doe + 1)"
proof -
  have "yearOfEra 0 \<le> yearOfEra doe"
    using assms by (intro yearOfEra_mono) auto
  then show lo: "0 \<le> yearOfEra doe" by (simp add: yearOfEra_def[of 0])
  have "yearOfEra doe \<le> yearOfEra 146096"
    using assms by (intro yearOfEra_mono) auto
  then show hi: "yearOfEra doe \<le> 399" by (simp add: yearOfEra_last)
  show "yearStart (yearOfEra doe) \<le> doe"
  proof (rule ccontr)
    assume "\<not> yearStart (yearOfEra doe) \<le> doe"
    then have lt: "doe \<le> yearStart (yearOfEra doe) - 1" by simp
    have "yearOfEra doe \<noteq> 0"
    proof
      assume "yearOfEra doe = 0"
      with lt assms show False by (simp add: yearStart_def)
    qed
    with lo have one: "1 \<le> yearOfEra doe" by simp
    have "yearStart (yearOfEra doe) - 1 \<le> 146096"
      using yearStart_div_36524(2)[OF lo hi] by simp
    then have "yearOfEra doe \<le> yearOfEra (yearStart (yearOfEra doe) - 1)"
      using assms(1) lt by (intro yearOfEra_mono) auto
    then show False using yearOfEra_before_yearStart[OF one hi] by simp
  qed
  assume lt: "yearOfEra doe < 399"
  show "doe < yearStart (yearOfEra doe + 1)"
  proof (rule ccontr)
    assume "\<not> doe < yearStart (yearOfEra doe + 1)"
    then have ge: "yearStart (yearOfEra doe + 1) \<le> doe" by simp
    have "0 \<le> yearStart (yearOfEra doe + 1)"
      using lo lt by (intro yearStart_div_36524(3)) auto
    then have "yearOfEra (yearStart (yearOfEra doe + 1)) \<le> yearOfEra doe"
      using ge assms(2) by (intro yearOfEra_mono) auto
    moreover have "yearOfEra (yearStart (yearOfEra doe + 1)) = yearOfEra doe + 1"
      using lo lt by (intro yearOfEra_yearStart) auto
    ultimately show False by simp
  qed
qed

subsection \<open>Day of the year, month and day of the month\<close>

lemma div_succ:
  assumes "0 < k"
  shows "(y + 1) div k = y div k + (if (y + 1) mod k = 0 then 1 else (0::int))"
proof (cases "(y + 1) mod k = 0")
  case True
  define q where "q = (y + 1) div k"
  have "y + 1 = k * q + (y + 1) mod k" unfolding q_def by (rule mult_div_mod_eq[symmetric])
  then have "y + 1 = k * q" using True by simp
  then have "y = k * (q - 1) + (k - 1)" by (simp add: algebra_simps)
  then have "y div k = q - 1"
    using div_block[of "k - 1" k "q - 1"] assms by simp
  then show ?thesis using True by (simp add: q_def)
next
  case False
  define q where "q = (y + 1) div k"
  define r where "r = (y + 1) mod k"
  have r: "0 \<le> r" "r < k" "r \<noteq> 0" using assms False by (simp_all add: r_def)
  have "y + 1 = k * q + r" by (simp add: q_def r_def)
  then have "y = k * q + (r - 1)" by simp
  then have "y div k = q"
    using div_block[of "r - 1" k q] r by simp
  then show ?thesis using False by (simp add: q_def)
qed

lemma dayOfYear_bounds:
  assumes "0 \<le> doe" "doe \<le> 146096"
  defines "yoe \<equiv> yearOfEra doe"
  defines "doy \<equiv> doe - yearStart yoe"
  shows "0 \<le> doy" "doy \<le> 365"
    "doy = 365 \<Longrightarrow> (yoe + 1) mod 4 = 0 \<and> ((yoe + 1) mod 100 \<noteq> 0 \<or> yoe = 399)"
proof -
  note b = yearOfEra_bracket[OF assms(1,2), folded yoe_def]
  show "0 \<le> doy" using b(3) by (simp add: doy_def)
  have step: "yearStart (yoe + 1) - yearStart yoe =
      365 + (if (yoe + 1) mod 4 = 0 then 1 else 0) - (if (yoe + 1) mod 100 = 0 then 1 else 0)"
    unfolding yearStart_def div_succ[of 4 yoe, simplified] div_succ[of 100 yoe, simplified]
    by simp
  have last: "yearStart 399 = 145731" by (simp add: yearStart_def)
  show "doy \<le> 365"
  proof (cases "yoe < 399")
    case True
    from b(4)[OF True] step show ?thesis by (auto simp: doy_def split: if_splits)
  next
    case False
    with b(2) have "yoe = 399" by simp
    then show ?thesis using assms(2) last by (simp add: doy_def)
  qed
  assume "doy = 365"
  show "(yoe + 1) mod 4 = 0 \<and> ((yoe + 1) mod 100 \<noteq> 0 \<or> yoe = 399)"
  proof (cases "yoe < 399")
    case True
    from b(4)[OF True] step \<open>doy = 365\<close> show ?thesis
      by (auto simp: doy_def split: if_splits)
  next
    case False
    with b(2) have "yoe = 399" by simp
    then show ?thesis by simp
  qed
qed

lemma month_day:
  assumes "0 \<le> doy" "doy \<le> 365"
  defines "mp \<equiv> (5 * doy + 2) div 153"
  defines "d \<equiv> doy - monthStart mp + 1"
  shows "0 \<le> mp" "mp \<le> 11" "1 \<le> d"
    "d \<le> (if mp = 11 then (if doy = 365 then 29 else 28)
           else if mp = 1 \<or> mp = 3 \<or> mp = 6 \<or> mp = 8 then 30 else 31)"
proof -
  have eq: "5 * doy + 2 = 153 * mp + (5 * doy + 2) mod 153"
    unfolding mp_def by (rule mult_div_mod_eq[symmetric])
  have r: "0 \<le> (5 * doy + 2) mod 153" "(5 * doy + 2) mod 153 < 153" by simp_all
  from eq r assms(1,2) show mp: "0 \<le> mp" "mp \<le> 11" by linarith+
  then have "mp \<in> set [0..11]" by simp
  then consider "mp = 0" | "mp = 1" | "mp = 2" | "mp = 3" | "mp = 4" | "mp = 5" | "mp = 6"
    | "mp = 7" | "mp = 8" | "mp = 9" | "mp = 10" | "mp = 11"
    by (auto simp: upto_rec1)
  then have "1 \<le> d \<and> d \<le> (if mp = 11 then (if doy = 365 then 29 else 28)
           else if mp = 1 \<or> mp = 3 \<or> mp = 6 \<or> mp = 8 then 30 else 31)"
  proof cases
    case 1 then show ?thesis using eq r assms(1,2) by (simp add: d_def monthStart_def; linarith)
  next
    case 2 then show ?thesis using eq r assms(1,2) by (simp add: d_def monthStart_def; linarith)
  next
    case 3 then show ?thesis using eq r assms(1,2) by (simp add: d_def monthStart_def; linarith)
  next
    case 4 then show ?thesis using eq r assms(1,2) by (simp add: d_def monthStart_def; linarith)
  next
    case 5 then show ?thesis using eq r assms(1,2) by (simp add: d_def monthStart_def; linarith)
  next
    case 6 then show ?thesis using eq r assms(1,2) by (simp add: d_def monthStart_def; linarith)
  next
    case 7 then show ?thesis using eq r assms(1,2) by (simp add: d_def monthStart_def; linarith)
  next
    case 8 then show ?thesis using eq r assms(1,2) by (simp add: d_def monthStart_def; linarith)
  next
    case 9 then show ?thesis using eq r assms(1,2) by (simp add: d_def monthStart_def; linarith)
  next
    case 10 then show ?thesis using eq r assms(1,2) by (simp add: d_def monthStart_def; linarith)
  next
    case 11 then show ?thesis using eq r assms(1,2) by (simp add: d_def monthStart_def; linarith)
  next
    case 12 then show ?thesis using eq r assms(1,2) by (simp add: d_def monthStart_def; linarith)
  qed
  then show "1 \<le> d"
    "d \<le> (if mp = 11 then (if doy = 365 then 29 else 28)
           else if mp = 1 \<or> mp = 3 \<or> mp = 6 \<or> mp = 8 then 30 else 31)"
    by simp_all
qed

lemma mod_era:
  "(x + e * 400) mod 4 = x mod (4::int)"
  "(x + e * 400) mod 100 = x mod (100::int)"
  "(x + e * 400) mod 400 = x mod (400::int)"
proof -
  have "(x + 4 * (e * 100)) mod 4 = x mod 4" by (rule mod_mult_self2)
  then show "(x + e * 400) mod 4 = x mod 4" by (simp add: mult.commute)
  have "(x + 100 * (e * 4)) mod 100 = x mod 100" by (rule mod_mult_self2)
  then show "(x + e * 400) mod 100 = x mod 100" by (simp add: mult.commute)
  have "(x + 400 * e) mod 400 = x mod 400" by (rule mod_mult_self2)
  then show "(x + e * 400) mod 400 = x mod 400" by (simp add: mult.commute)
qed

lemma civil_roundtrip:
  assumes "civilFromDays n = (y, m, d)"
  shows "1 \<le> m" "m \<le> 12" "1 \<le> d" "d \<le> daysInMonth y m" "daysFromCivil y m d = n"
proof -
  define z where "z = n + 719468"
  define era where "era = z div 146097"
  define doe where "doe = z - era * 146097"
  define yoe where "yoe = yearOfEra doe"
  define doy where "doy = doe - yearStart yoe"
  define mp where "mp = (5 * doy + 2) div 153"
  have doe_mod: "doe = z mod 146097"
    unfolding doe_def era_def by (simp add: minus_div_mult_eq_mod)
  have doe: "0 \<le> doe" "doe \<le> 146096" unfolding doe_mod by simp_all
  note yb = yearOfEra_bracket(1,2)[OF doe, folded yoe_def]
  note db = dayOfYear_bounds[OF doe, folded yoe_def, folded doy_def]
  note mb = month_day[OF db(1,2), folded mp_def]
  from assms have m: "m = (if mp < 10 then mp + 3 else mp - 9)"
    and d: "d = doy - monthStart mp + 1"
    and y: "y = yoe + era * 400 + (if m \<le> 2 then 1 else 0)"
    unfolding civilFromDays_def Let_def z_def[symmetric] era_def[symmetric] doe_def[symmetric]
      yoe_def[symmetric] doy_def[symmetric] mp_def[symmetric]
    by auto
  show "1 \<le> m" "m \<le> 12" using mb(1,2) by (auto simp: m)
  show "1 \<le> d" using mb(3) by (simp add: d)
  show "d \<le> daysInMonth y m"
  proof (cases "mp = 11")
    case True
    then have m2: "m = 2" by (simp add: m)
    then have y1: "y = (yoe + 1) + era * 400" by (simp add: y)
    show ?thesis
    proof (cases "doy = 365")
      case True
      from db(3)[OF True] have "y mod 4 = 0 \<and> (y mod 100 \<noteq> 0 \<or> y mod 400 = 0)"
        unfolding y1 mod_era by auto
      then show ?thesis using mb(4) \<open>mp = 11\<close> True by (simp add: daysInMonth_def m2 d)
    next
      case False
      then show ?thesis using mb(4) \<open>mp = 11\<close> by (simp add: daysInMonth_def m2 d)
    qed
  next
    case False
    then show ?thesis using mb(1,2,4) by (auto simp: daysInMonth_def m d)
  qed
  have y': "(if m \<le> 2 then y - 1 else y) = 400 * era + yoe"
    by (simp add: y)
  have era': "(400 * era + yoe) div 400 = era"
    using yb by (intro div_block) auto
  have mp': "(if m > 2 then m - 3 else m + 9) = mp"
    using mb(1,2) by (auto simp: m)
  show "daysFromCivil y m d = n"
    unfolding daysFromCivil_def Let_def y' era' mp'
    by (simp add: d doy_def doe_def z_def)
qed

subsection \<open>Digits\<close>

lemma digit_cases:
  "r < 10 \<Longrightarrow> r = 0 \<or> r = 1 \<or> r = 2 \<or> r = 3 \<or> r = 4 \<or> r = 5 \<or> r = 6 \<or> r = 7 \<or> r = 8
     \<or> r = (9::nat)"
proof -
  assume "r < 10"
  then have "r \<in> set [0..<10]" by simp
  also have "[0..<10] = [0, 1, 2, 3, 4, 5, 6, 7, 8, 9::nat]"
    by (simp add: upt_conv_Cons)
  finally show ?thesis by simp
qed

lemma replicate_small:
  "replicate 1 c = [c]" "replicate 2 c = [c, c]" "replicate 3 c = [c, c, c]"
  by (simp_all add: numeral_2_eq_2 numeral_3_eq_3)

lemma digitValue_digitChar: "digitValue (digitChar j) = Some (int (j mod 10))"
proof -
  have "j mod 10 < 10" by simp
  from digit_cases[OF this] show ?thesis
    by (elim disjE) (simp_all add: digitChar_def digitValue_def)
qed

lemma number2: "number [digitChar a, digitChar b] = Some (int (10 * (a mod 10) + b mod 10))"
  by (simp add: digitValue_digitChar)

lemma number4:
  "number [digitChar a, digitChar b, digitChar c, digitChar e] =
     Some (int (1000 * (a mod 10) + 100 * (b mod 10) + 10 * (c mod 10) + e mod 10))"
  by (simp add: digitValue_digitChar)

lemma decimal1: "k < 10 \<Longrightarrow> decimal k = [digitChar k]"
  by (simp add: decimal.simps)

lemma decimal2: "10 \<le> k \<Longrightarrow> k < 100 \<Longrightarrow> decimal k = [digitChar (k div 10), digitChar k]"
  by (subst decimal.simps) (simp add: decimal1)

lemma decimal3:
  "100 \<le> k \<Longrightarrow> k < 1000 \<Longrightarrow> decimal k = [digitChar (k div 100), digitChar (k div 10), digitChar k]"
  by (subst decimal.simps) (simp add: decimal2 div_mult2_eq[symmetric])

lemma decimal4:
  "1000 \<le> k \<Longrightarrow> k < 10000 \<Longrightarrow>
   decimal k = [digitChar (k div 1000), digitChar (k div 100), digitChar (k div 10), digitChar k]"
  by (subst decimal.simps) (simp add: decimal3 div_mult2_eq[symmetric])

lemma digitChar_0: "digitChar 0 = CHR ''0''"
  by (simp add: digitChar_def)

lemma pad2:
  assumes "k < 100"
  shows "addLeadingZeros k 2 = [digitChar (k div 10), digitChar k]"
proof (cases "k < 10")
  case True
  then show ?thesis by (simp add: addLeadingZeros_def decimal1 digitChar_0 replicate_small)
next
  case False
  then show ?thesis using assms by (simp add: addLeadingZeros_def decimal2)
qed

lemma pad4:
  assumes "k < 10000"
  shows "addLeadingZeros k 4 =
    [digitChar (k div 1000), digitChar (k div 100), digitChar (k div 10), digitChar k]"
proof -
  consider "k < 10" | "10 \<le> k" "k < 100" | "100 \<le> k" "k < 1000" | "1000 \<le> k"
    by linarith
  then show ?thesis
  proof cases
    case 1
    then show ?thesis
      by (simp add: addLeadingZeros_def decimal1 digitChar_0 replicate_small)
  next
    case 2
    then show ?thesis
      by (simp add: addLeadingZeros_def decimal2 digitChar_0 replicate_small)
  next
    case 3
    then show ?thesis
      by (simp add: addLeadingZeros_def decimal3 digitChar_0 replicate_small)
  next
    case 4
    then show ?thesis using assms
      by (simp add: addLeadingZeros_def decimal4)
  qed
qed

lemma digits2:
  assumes "k < 100"
  shows "10 * (k div 10 mod 10) + k mod 10 = (k::nat)"
proof -
  have "k div 10 < 10" using assms by simp
  then show ?thesis by simp
qed

lemma digits4:
  assumes "k < 10000"
  shows "1000 * (k div 1000 mod 10) + 100 * (k div 100 mod 10) + 10 * (k div 10 mod 10) + k mod 10
     = (k::nat)"
proof -
  define q1 where "q1 = k div 10"
  define q2 where "q2 = q1 div 10"
  define q3 where "q3 = q2 div 10"
  have e2: "k div 100 = q2" unfolding q2_def q1_def by (simp add: div_mult2_eq[symmetric])
  have e3: "k div 1000 = q3" unfolding q3_def q2_def q1_def by (simp add: div_mult2_eq[symmetric])
  have "q3 < 10" using assms unfolding e3[symmetric] by simp
  then have m3: "q3 mod 10 = q3" by simp
  have k: "k = 10 * q1 + k mod 10" unfolding q1_def by simp
  have a: "q1 = 10 * q2 + q1 mod 10" unfolding q2_def by simp
  have b: "q2 = 10 * q3 + q2 mod 10" unfolding q3_def by simp
  show ?thesis
    unfolding e2 e3 q1_def[symmetric] m3 using k a b by linarith
qed

subsection \<open>Formatting and parsing a day of the years 0001 to 9999\<close>

lemma civil_year_range:
  assumes c: "civilFromDays n = (y, m, d)" and lo: "- 719162 \<le> n" and hi: "n \<le> 2932896"
  shows "1 \<le> y" "y \<le> 9999"
proof -
  define z where "z = n + 719468"
  define era where "era = z div 146097"
  define doe where "doe = z - era * 146097"
  define yoe where "yoe = yearOfEra doe"
  define doy where "doy = doe - yearStart yoe"
  define mp where "mp = (5 * doy + 2) div 153"
  have doe_mod: "doe = z mod 146097"
    unfolding doe_def era_def by (simp add: minus_div_mult_eq_mod)
  have doe: "0 \<le> doe" "doe \<le> 146096" unfolding doe_mod by simp_all
  note yb = yearOfEra_bracket[OF doe, folded yoe_def]
  from c have m: "m = (if mp < 10 then mp + 3 else mp - 9)"
    and y: "y = yoe + era * 400 + (if m \<le> 2 then 1 else 0)"
    unfolding civilFromDays_def Let_def z_def[symmetric] era_def[symmetric] doe_def[symmetric]
      yoe_def[symmetric] doy_def[symmetric] mp_def[symmetric]
    by auto
  have z: "306 \<le> z" "z \<le> 3652364" using lo hi by (simp_all add: z_def)
  have era: "0 \<le> era" "era \<le> 24"
  proof -
    show "0 \<le> era" unfolding era_def using z by (simp add: pos_imp_zdiv_nonneg_iff)
    have "z div 146097 \<le> 3652364 div 146097" using z by (intro zdiv_mono1) auto
    then show "era \<le> 24" by (simp add: era_def)
  qed
  show "1 \<le> y"
  proof (cases "era = 0 \<and> yoe = 0")
    case True
    then have "doy = doe" "doe = z" by (simp_all add: doy_def doe_def yearStart_def)
    then have "(5 * 306 + 2) div 153 \<le> mp"
      unfolding mp_def using z by (intro zdiv_mono1) auto
    then have "10 \<le> mp" by simp
    then have "m \<le> 2 \<or> 12 \<le> mp" by (auto simp: m)
    moreover have "mp \<le> 11"
      using month_day(2)[OF dayOfYear_bounds(1,2)[OF doe], folded yoe_def, folded doy_def,
          folded mp_def] .
    ultimately show ?thesis using True by (simp add: y)
  next
    case False
    then have "1 \<le> era \<or> 1 \<le> yoe" using era yb(1) by auto
    then show ?thesis using era yb(1) by (auto simp: y)
  qed
  show "y \<le> 9999"
  proof (cases "era = 24 \<and> yoe = 399")
    case True
    then have "doe \<le> 146036" using z by (simp add: doe_def)
    then have "doy \<le> 305" using True by (simp add: doy_def yearStart_def)
    then have "mp \<le> (5 * 305 + 2) div 153"
      unfolding mp_def by (intro zdiv_mono1) auto
    then have "mp < 10" by simp
    moreover have "0 \<le> mp"
      using month_day(1)[OF dayOfYear_bounds(1,2)[OF doe], folded yoe_def, folded doy_def,
          folded mp_def] .
    ultimately have "\<not> m \<le> 2" by (simp add: m)
    then show ?thesis using True by (simp add: y)
  next
    case False
    then have "era \<le> 23 \<or> yoe \<le> 398" using era yb(2) by auto
    then show ?thesis using era yb(2) by (auto simp: y)
  qed
qed

lemma daysInMonth_le: "daysInMonth y m \<le> 31"
  by (simp add: daysInMonth_def)

lemma format_parse_roundtrip:
  assumes "- 719162 \<le> n" "n \<le> 2932896"
  shows "parseISO (format_yyyy_MM_dd n) = Some n"
proof -
  obtain y m d where c: "civilFromDays n = (y, m, d)"
    by (cases "civilFromDays n") auto
  note r = civil_roundtrip[OF c]
  note yr = civil_year_range[OF c assms]
  have d31: "d \<le> 31" using r(4) daysInMonth_le[of y m] by linarith
  have ny: "nat y < 10000" "int (nat y) = y" using yr by simp_all
  have nm: "nat m < 100" "int (nat m) = m" using r(1,2) by simp_all
  have nd: "nat d < 100" "int (nat d) = d" using r(3) d31 by simp_all
  have f: "format_yyyy_MM_dd n =
      [digitChar (nat y div 1000), digitChar (nat y div 100), digitChar (nat y div 10),
       digitChar (nat y), CHR ''-'', digitChar (nat m div 10), digitChar (nat m), CHR ''-'',
       digitChar (nat d div 10), digitChar (nat d)]"
    using yr(1) by (simp add: format_yyyy_MM_dd_def c pad4[OF ny(1)] pad2[OF nm(1)] pad2[OF nd(1)])
  have py: "number [digitChar (nat y div 1000), digitChar (nat y div 100), digitChar (nat y div 10),
       digitChar (nat y)] = Some y"
    unfolding number4 digits4[OF ny(1)] by (simp only: ny(2))
  have pm: "number [digitChar (nat m div 10), digitChar (nat m)] = Some m"
    unfolding number2 digits2[OF nm(1)] by (simp only: nm(2))
  have pd: "number [digitChar (nat d div 10), digitChar (nat d)] = Some d"
    unfolding number2 digits2[OF nd(1)] by (simp only: nd(2))
  show ?thesis
    unfolding f parseISO_def
    using r by (simp add: py pm pd del: number.simps)
qed

subsection \<open>The entries of a week\<close>

lemma weeklyEntries_roundtrip:
  assumes "\<forall>n \<in> set ns. parseISO (format_yyyy_MM_dd n) = Some n"
  shows "weeklyEntries clock h k (map format_yyyy_MM_dd ns) =
     Inr (map (\<lambda>(j, n). weeklyEntry h (format_yyyy_MM_dd n) n (clock j)) (zip [k..<k + length ns] ns))"
  using assms
proof (induction ns arbitrary: k)
  case Nil
  show ?case by simp
next
  case (Cons n ns)
  have "[k..<Suc (k + length ns)] = k # [Suc k..<Suc (k + length ns)]"
    by (rule upt_conv_Cons) simp
  then have upt: "[k..<k + length (n # ns)] = k # [Suc k..<Suc k + length ns]"
    by simp
  from Cons.prems have p: "parseISO (format_yyyy_MM_dd n) = Some n" by simp
  from Cons.prems have rest: "\<forall>n \<in> set ns. parseISO (format_yyyy_MM_dd n) = Some n" by simp
  show ?case
    unfolding upt by (simp add: p Cons.IH[OF rest])
qed

lemma week_entries_explicit:
  "map (\<lambda>(j, n). weeklyEntry h (format_yyyy_MM_dd n) n (clock j))
      (zip [1..<1 + length (map (\<lambda>i. s + int i) [0..<7])] (map (\<lambda>i. s + int i) [0..<7]))
   = map (\<lambda>i. weeklyEntry h (format_yyyy_MM_dd (s + int i)) (s + int i) (clock (Suc i))) [0..<7]"
proof -
  have idx: "[1..<1 + length (map (\<lambda>i. s + int i) [0..<7])] = [1, 2, 3, 4, 5, 6, 7::nat]"
    using seven1 by simp
  show ?thesis unfolding idx unfolding seven by (simp add: numeral_2_eq_2[symmetric])
qed

subsection \<open>The sample week\<close>

lemma decimal_small: "k < 10 \<Longrightarrow> decimal k = [digitChar k]"
  by (simp add: decimal.simps)

lemma decimal_large: "\<not> k < 10 \<Longrightarrow> decimal k = decimal (k div 10) @ [digitChar k]"
  by (subst decimal.simps) simp

lemmas date_eval = format_yyyy_MM_dd_def civilFromDays_def yearOfEra_def yearStart_def
  monthStart_def addLeadingZeros_def decimal_small
  decimal_large digitChar_def parseISO_def digitValue_def daysInMonth_def daysFromCivil_def
  startOfWeek_def getDay_def addDays_def format_EEE_id_def isSameDay_def

lemma week_formats:
  "format_yyyy_MM_dd 19786 = ''2024-03-04''" "format_yyyy_MM_dd 19787 = ''2024-03-05''"
  "format_yyyy_MM_dd 19788 = ''2024-03-06''" "format_yyyy_MM_dd 19789 = ''2024-03-07''"
  "format_yyyy_MM_dd 19790 = ''2024-03-08''" "format_yyyy_MM_dd 19791 = ''2024-03-09''"
  "format_yyyy_MM_dd 19792 = ''2024-03-10''"
  by (simp_all add: date_eval cong: let_weak_cong)
lemma week_parses:
  "parseISO ''2024-03-04'' = Some 19786" "parseISO ''2024-03-05'' = Some 19787"
  "parseISO ''2024-03-06'' = Some 19788" "parseISO ''2024-03-07'' = Some 19789"
  "parseISO ''2024-03-08'' = Some 19790" "parseISO ''2024-03-09'' = Some 19791"
  "parseISO ''2024-03-10'' = Some 19792"
  by (simp_all add: date_eval cong: let_weak_cong)
lemma week_labels:
  "format_EEE_id 19786 = ''Sen''" "format_EEE_id 19787 = ''Sel''" "format_EEE_id 19788 = ''Rab''"
  "format_EEE_id 19789 = ''Kam''" "format_EEE_id 19790 = ''Jum''" "format_EEE_id 19791 = ''Sab''"
  "format_EEE_id 19792 = ''Min''"
  by (simp_all add: format_EEE_id_def getDay_def)
lemma week_days: "map (\<lambda>i. format_yyyy_MM_dd (addDays 19786 (int i))) [0, 1, 2, 3, 4, 5, 6] =
   [''2024-03-04'', ''2024-03-05'', ''2024-03-06'', ''2024-03-07'', ''2024-03-08'', ''2024-03-09'', ''2024-03-10'']"
  by (simp add: addDays_def week_formats)

subsection \<open>Failures of the JSON reader\<close>

lemma startChar_error: "startChar c = Inl e \<Longrightarrow> e = SyntaxError"
  by (auto simp: startChar_def split: if_splits)

lemma lexStep_error: "lexStep st c = Inl e \<Longrightarrow> e = SyntaxError"
  by (cases st) (auto split: if_splits option.splits sum.splits list.splits dest: startChar_error)

lemma lexFinish_error: "lexFinish st = Inl e \<Longrightarrow> e = SyntaxError"
  by (cases st) (auto split: if_splits)

lemma lexRun_error: "lexRun st cs = Inl e \<Longrightarrow> e = SyntaxError"
proof (induction cs arbitrary: st)
  case Nil
  then show ?case by (simp add: lexFinish_error)
next
  case (Cons c cs)
  then show ?case
    by (auto split: sum.splits prod.splits dest: lexStep_error)
qed

lemma parseTokens_error: "parseTokens m st ts = Inl e \<Longrightarrow> e = SyntaxError"
proof (induction ts arbitrary: m st)
  case Nil
  then show ?case by (cases m) auto
next
  case (Cons t ts)
  then show ?case by (auto split: option.splits prod.splits)
qed

lemma JSON_parse_error: "JSON_parse s = Inl e \<Longrightarrow> e = SyntaxError"
  by (auto simp: JSON_parse_def split: sum.splits dest: lexRun_error parseTokens_error)

section \<open>Reading a day\<close>

text \<open>
  Claim C2. For a selected date with no entry in the store, \<open>currentAttendance\<close> is the
  roster default: nine records, named as \<open>FRIENDS\<close> in that order, each with
  \<open>isPresent = False\<close> and \<open>time = None\<close>. The read is a function of the state that
  returns the record list only; it has no state to return, so the store is as before.
\<close>

theorem currentAttendance_unseen_date:
  assumes "map_of (history st) (selectedDate st) = None"
  shows "currentAttendance st = map absent FRIENDS
    \<and> length (currentAttendance st) = length FRIENDS
    \<and> length (currentAttendance st) = 9
    \<and> map name (currentAttendance st) = FRIENDS
    \<and> list_all (\<lambda>r. isPresent r = False \<and> time r = None) (currentAttendance st)"
  using assms
  by (simp add: currentAttendance_def dayDataOf_def length_FRIENDS list_all_iff absent_def comp_def)

theorem currentAttendance_unseen_date_witness:
  "map_of (history emptyApp) (selectedDate emptyApp) = None
   \<and> currentAttendance emptyApp =
       [absent ''Yolanda'', absent ''Fadhil'', absent ''Nisa'', absent ''Aurel'', absent ''Jihan'',
        absent ''Alisa'', absent ''Opang'', absent ''Clara'', absent ''Caca'']
   \<and> length (currentAttendance emptyApp) = 9"
  using currentAttendance_unseen_date[of emptyApp] by (simp add: emptyApp_def FRIENDS_def)

section \<open>Toggling\<close>

text \<open>
  Claim C3. When \<open>p\<close> names a record of the selected date's set (the names of a
  day's records being distinct, as the data model has them), \<open>toggleAttendance\<close> flips
  exactly that record: towards present the time becomes the time read by the handler and
  one \<open>masuk\<close> entry is appended to the log, towards absent the time becomes \<open>None\<close>
  and one \<open>keluar\<close> entry is appended. The other records of the day keep their place
  and value, and every other date reads as before.
\<close>

theorem toggle_flips_one_record:
  assumes "p \<in> set (map name (currentAttendance st))"
    and "distinct (map name (currentAttendance st))"
  shows "\<exists>i<length (currentAttendance st).
      name (currentAttendance st ! i) = p
    \<and> currentAttendance (toggleAttendance p t rnd st) =
        (currentAttendance st)[i := (currentAttendance st ! i)
           \<lparr>isPresent := \<not> isPresent (currentAttendance st ! i),
            time := (if isPresent (currentAttendance st ! i) then None else Some t)\<rparr>]
    \<and> logs (toggleAttendance p t rnd st) =
        appendLog \<lparr>log_id = rnd 0, log_name = p,
                   action = (if isPresent (currentAttendance st ! i) then keluar else masuk),
                   log_time = t, log_date = selectedDate st\<rparr> (logs st)
    \<and> (\<forall>d. d \<noteq> selectedDate st \<longrightarrow>
          map_of (history (toggleAttendance p t rnd st)) d = map_of (history st) d)"
proof -
  from assms(1) obtain i where i: "i < length (currentAttendance st)"
    and nm: "name (currentAttendance st ! i) = p"
    by (auto simp: in_set_conv_nth)
  have day: "currentAttendance (toggleAttendance p t rnd st) =
        (currentAttendance st)[i := (currentAttendance st ! i)
           \<lparr>isPresent := \<not> isPresent (currentAttendance st ! i),
            time := (if isPresent (currentAttendance st ! i) then None else Some t)\<rparr>]"
    using map_toggle_one[OF assms(2) i nm]
    by (simp add: currentAttendance_def[of "toggleAttendance p t rnd st"]
        toggleAttendance_selectedDate toggleAttendance_history dayDataOf_update)
  have lg: "logs (toggleAttendance p t rnd st) =
        appendLog \<lparr>log_id = rnd 0, log_name = p,
                   action = (if isPresent (currentAttendance st ! i) then keluar else masuk),
                   log_time = t, log_date = selectedDate st\<rparr> (logs st)"
    by (simp add: toggleAttendance_logs snd_toggleMap_one[OF assms(2) i nm])
  have other: "\<forall>d. d \<noteq> selectedDate st \<longrightarrow>
          map_of (history (toggleAttendance p t rnd st)) d = map_of (history st) d"
    by (simp add: toggleAttendance_history update_conv')
  from i nm day lg other show ?thesis by blast
qed

theorem toggle_flips_one_record_witness:
  "''Nisa'' \<in> set (map name (currentAttendance emptyApp))
   \<and> distinct (map name (currentAttendance emptyApp))
   \<and> toggleAttendance ''Nisa'' ''08:15:00'' exampleRnd emptyApp = exampleApp"
  using toggle_flips_one_record[of "''Nisa''" emptyApp "''08:15:00''" exampleRnd]
  by (simp add: emptyApp_def exampleApp_def exampleRnd_def toggleAttendance_def currentAttendance_def
      dayDataOf_def FRIENDS_def absent_def appendLog_def)

text \<open>
  Claim C4. Two toggles of the same name on the same date bring every record back to
  its \<open>isPresent\<close> value; a record of that name that was absent has \<open>time = None\<close>
  again, and one that was present carries the time of the second toggle.
\<close>

theorem toggle_twice:
  "currentAttendance (toggleAttendance p t2 rnd2 (toggleAttendance p t1 rnd1 st)) =
     map (\<lambda>r. if name r = p then r\<lparr>time := (if isPresent r then Some t2 else None)\<rparr> else r)
       (currentAttendance st)
   \<and> map isPresent (currentAttendance (toggleAttendance p t2 rnd2 (toggleAttendance p t1 rnd1 st)))
       = map isPresent (currentAttendance st)
   \<and> (\<forall>i < length (currentAttendance st).
         name (currentAttendance st ! i) = p \<and> \<not> isPresent (currentAttendance st ! i) \<longrightarrow>
         time (currentAttendance (toggleAttendance p t2 rnd2 (toggleAttendance p t1 rnd1 st)) ! i)
           = None)"
proof -
  let ?mid = "toggleAttendance p t1 rnd1 st"
  have c1: "currentAttendance ?mid = map (\<lambda>r. if name r = p
               then r\<lparr>isPresent := \<not> isPresent r, time := (if isPresent r then None else Some t1)\<rparr>
               else r) (currentAttendance st)"
    by (simp add: currentAttendance_def[of ?mid] toggleAttendance_selectedDate
        toggleAttendance_history dayDataOf_update)
  have c2: "currentAttendance (toggleAttendance p t2 rnd2 ?mid) = map (\<lambda>r. if name r = p
               then r\<lparr>isPresent := \<not> isPresent r, time := (if isPresent r then None else Some t2)\<rparr>
               else r) (currentAttendance ?mid)"
    by (simp add: currentAttendance_def[of "toggleAttendance p t2 rnd2 ?mid"]
        toggleAttendance_selectedDate toggleAttendance_history dayDataOf_update)
  have first: "currentAttendance (toggleAttendance p t2 rnd2 ?mid) =
     map (\<lambda>r. if name r = p then r\<lparr>time := (if isPresent r then Some t2 else None)\<rparr> else r)
       (currentAttendance st)"
    unfolding c2 c1 by (simp add: comp_def cong: if_cong)
  show ?thesis unfolding first by (simp add: comp_def) 
qed

theorem toggle_twice_witness:
  "currentAttendance (toggleAttendance ''Nisa'' ''17:30:00'' exampleRnd
      (toggleAttendance ''Nisa'' ''08:15:00'' exampleRnd emptyApp)) = map absent FRIENDS
   \<and> currentAttendance (toggleAttendance ''Nisa'' ''17:45:00'' exampleRnd
      (toggleAttendance ''Nisa'' ''17:30:00'' exampleRnd exampleApp)) =
       [absent ''Yolanda'', absent ''Fadhil'',
        \<lparr>name = ''Nisa'', time = Some ''17:45:00'', isPresent = True\<rparr>,
        absent ''Aurel'', absent ''Jihan'', absent ''Alisa'', absent ''Opang'',
        absent ''Clara'', absent ''Caca'']"
  using toggle_twice[of "''Nisa''" "''17:30:00''" exampleRnd "''08:15:00''" exampleRnd emptyApp]
    toggle_twice[of "''Nisa''" "''17:45:00''" exampleRnd "''17:30:00''" exampleRnd exampleApp]
  by (simp add: emptyApp_def exampleApp_def currentAttendance_def dayDataOf_def FRIENDS_def absent_def)

text \<open>
  Claim C10. When no record of the selected date's set is named \<open>p\<close>, the toggle changes
  no record and appends nothing to the log, yet it writes the date's key: the store gets
  the day's set as it was read (the roster default when the date had no entry).
\<close>

theorem toggle_unknown_name:
  assumes "p \<notin> set (map name (currentAttendance st))"
  shows "history (toggleAttendance p t rnd st) =
           AList.update (selectedDate st) (currentAttendance st) (history st)
    \<and> map_of (history (toggleAttendance p t rnd st)) (selectedDate st) = Some (currentAttendance st)
    \<and> (\<forall>d. dayDataOf (history (toggleAttendance p t rnd st)) d = dayDataOf (history st) d)
    \<and> logs (toggleAttendance p t rnd st) = logs st"
proof -
  from assms have notin: "p \<notin> name ` set (currentAttendance st)" by simp
  have h: "history (toggleAttendance p t rnd st) =
           AList.update (selectedDate st) (currentAttendance st) (history st)"
    by (simp add: toggleAttendance_history map_toggle_none[OF notin])
  have l: "logs (toggleAttendance p t rnd st) = logs st"
    by (simp add: toggleAttendance_logs snd_toggleMap_none[OF notin])
  have d: "\<forall>d. dayDataOf (history (toggleAttendance p t rnd st)) d = dayDataOf (history st) d"
    by (simp add: h dayDataOf_update currentAttendance_def)
  show ?thesis using h l d by (simp add: update_conv')
qed

theorem toggle_unknown_name_witness:
  "''Zaid'' \<notin> set (map name (currentAttendance exampleApp))
   \<and> toggleAttendance ''Zaid'' ''09:00:00'' exampleRnd exampleApp = exampleApp
   \<and> history (toggleAttendance ''Zaid'' ''09:00:00'' exampleRnd emptyApp) =
        [(''2024-03-10'', map absent FRIENDS)]
   \<and> logs (toggleAttendance ''Zaid'' ''09:00:00'' exampleRnd emptyApp) = []"
  using toggle_unknown_name[of "''Zaid''" exampleApp "''09:00:00''" exampleRnd]
  by (simp add: emptyApp_def exampleApp_def exampleRnd_def toggleAttendance_def currentAttendance_def
      dayDataOf_def FRIENDS_def absent_def appendLog_def)

section \<open>The invariant of the records\<close>

text \<open>
  Claim C5. If every record of the store is absent exactly when its time is \<open>None\<close>,
  the same holds after a toggle, after a reset, and after any sequence of intents.
\<close>

theorem present_iff_timed_invariant:
  assumes "storeOk (history st)"
  shows "storeOk (history (toggleAttendance p t rnd st))
     \<and> storeOk (history (resetAttendance confirmed st))
     \<and> storeOk (history (fold dispatch evs st))"
  using assms by (simp add: storeOk_toggle storeOk_reset storeOk_run)

theorem present_iff_timed_invariant_witness:
  "storeOk (history exampleApp)
   \<and> storeOk (history (toggleAttendance ''Nisa'' ''17:30:00'' exampleRnd exampleApp))
   \<and> storeOk (history (resetAttendance True exampleApp))
   \<and> storeOk (history (fold dispatch
        [SelectDate ''2024-03-11'', Toggle ''Caca'' ''07:00:00'' exampleRnd, Reset True] exampleApp))"
proof -
  have ok: "storeOk (history exampleApp)"
    by (simp add: exampleApp_def storeOk_def recordOk_def absent_def)
  show ?thesis
    using ok present_iff_timed_invariant[OF ok, of "''Nisa''" "''17:30:00''" exampleRnd True
        "[SelectDate ''2024-03-11'', Toggle ''Caca'' ''07:00:00'' exampleRnd, Reset True]"]
    by simp
qed

section \<open>The activity log\<close>

text \<open>
  Claim C6. Appending puts the new entry first and keeps the first 100 entries. After
  any non-empty series of appends the log is the first 100 of the appended entries,
  newest first, followed by the old log; of two entries appended one after the other the
  later stands directly before the earlier; and 101 appends to the empty log leave
  exactly the last 100 of them, so the first one is gone.
\<close>

theorem appendLog_newest_first:
  "(es \<noteq> [] \<longrightarrow> fold appendLog es l = take 100 (rev es @ l))
   \<and> appendLog e2 (appendLog e1 l) = e2 # e1 # take 98 l
   \<and> (length es = 101 \<longrightarrow>
        fold appendLog es [] = rev (tl es)
      \<and> length (fold appendLog es []) = 100
      \<and> (distinct es \<longrightarrow> hd es \<notin> set (fold appendLog es [])))"
proof -
  have two: "appendLog e2 (appendLog e1 l) = e2 # e1 # take 98 l"
    by (simp add: appendLog_def take_Cons')
  have full: "fold appendLog es [] = rev (tl es)" if len: "length es = 101"
  proof -
    from len obtain e es' where es: "es = e # es'" and len': "length es' = 100"
      by (cases es) auto
    show ?thesis by (simp add: appendLog_fold es len')
  qed
  have absent: "hd es \<notin> set (rev (tl es))" if "length es = 101" "distinct es"
    using that by (cases es) auto
  have gen: "fold appendLog es l = take 100 (rev es @ l)" if "es \<noteq> []"
    using that by (cases es) (simp_all add: appendLog_fold)
  show ?thesis using two full absent gen by simp
qed

theorem appendLog_newest_first_witness:
  "length (map numberedEntry [0..<101]) = 101
   \<and> distinct (map numberedEntry [0..<101])
   \<and> fold appendLog (map numberedEntry [0..<101]) [] = rev (map numberedEntry [1..<101])
   \<and> length (fold appendLog (map numberedEntry [0..<101]) []) = 100
   \<and> numberedEntry 0 \<notin> set (fold appendLog (map numberedEntry [0..<101]) [])"
proof -
  have len: "length (map numberedEntry [0..<101]) = 101" by simp
  have hd0: "hd (map numberedEntry [0..<101]) = numberedEntry 0"
    by (simp add: upt_conv_Cons)
  have tl0: "tl (map numberedEntry [0..<101]) = map numberedEntry [1..<101]"
    by (simp add: upt_conv_Cons[of 0])
  have d: "distinct (map numberedEntry [0..<101])"
    by (rule distinct_numbered)
  from appendLog_newest_first[of "map numberedEntry [0..<101]" "[]"
        "numberedEntry 1" "numberedEntry 0"] len d
  have "fold appendLog (map numberedEntry [0..<101]) [] = rev (tl (map numberedEntry [0..<101]))
      \<and> length (fold appendLog (map numberedEntry [0..<101]) []) = 100
      \<and> hd (map numberedEntry [0..<101]) \<notin> set (fold appendLog (map numberedEntry [0..<101]) [])"
    by blast
  then have "fold appendLog (map numberedEntry [0..<101]) [] = rev (map numberedEntry [1..<101])
      \<and> length (fold appendLog (map numberedEntry [0..<101]) []) = 100
      \<and> numberedEntry 0 \<notin> set (fold appendLog (map numberedEntry [0..<101]) [])"
    unfolding hd0 tl0 .
  with len d show ?thesis by blast
qed

section \<open>Resetting a day\<close>

text \<open>
  Claim C7. A confirmed reset replaces the selected date's set by the roster default
  (one absent record per roster name, in roster order), leaves every other date as it
  was, and leaves the log as it was.
\<close>

theorem reset_overwrites_day:
  "currentAttendance (resetAttendance True st) = map absent FRIENDS
   \<and> map name (currentAttendance (resetAttendance True st)) = FRIENDS
   \<and> list_all (\<lambda>r. isPresent r = False \<and> time r = None) (currentAttendance (resetAttendance True st))
   \<and> history (resetAttendance True st) =
        AList.update (selectedDate st) (map absent FRIENDS) (history st)
   \<and> (\<forall>d. d \<noteq> selectedDate st \<longrightarrow>
         map_of (history (resetAttendance True st)) d = map_of (history st) d)
   \<and> logs (resetAttendance True st) = logs st
   \<and> selectedDate (resetAttendance True st) = selectedDate st"
  by (simp add: resetAttendance_def currentAttendance_def dayDataOf_update update_conv'
      list_all_iff absent_def comp_def)

theorem reset_overwrites_day_witness:
  "currentAttendance (resetAttendance True exampleApp) = map absent FRIENDS
   \<and> logs (resetAttendance True exampleApp) =
       [\<lparr>log_id = ''k3j9x0a1b'', log_name = ''Nisa'', action = masuk,
         log_time = ''08:15:00'', log_date = ''2024-03-10''\<rparr>]
   \<and> map_of (history (resetAttendance True exampleApp)) ''2024-03-09'' = None"
  using reset_overwrites_day[of exampleApp] by (simp add: exampleApp_def)

section \<open>Friend statistics\<close>

text \<open>
  Claim C9. For a store whose date keys are distinct (the keys of an object are),
  \<open>friendStats\<close> has one entry per roster name; the total of a name is the number of date
  keys whose record set has a record of that name with \<open>isPresent\<close>; the entries are in
  descending order of total; and the entries of any one total stand in roster order.
\<close>

theorem friendStats_counts_and_order:
  assumes "distinct (map fst h)"
  shows "length (friendStats h) = length FRIENDS
    \<and> set (map f_name (friendStats h)) = set FRIENDS
    \<and> distinct (map f_name (friendStats h))
    \<and> (\<forall>s \<in> set (friendStats h).
          total s = card {d. \<exists>rs. map_of h d = Some rs \<and> presentOn (f_name s) rs})
    \<and> sorted_wrt (\<lambda>a b. total b \<le> total a) (friendStats h)
    \<and> (\<forall>k. map f_name (filter (\<lambda>s. total s = k) (friendStats h)) =
             filter (\<lambda>n. totalPresent h n = k) FRIENDS)"
proof -
  have len: "length (friendStats h) = length FRIENDS"
    by (simp add: friendStats_sort_key)
  have names: "set (map f_name (friendStats h)) = set FRIENDS"
    by (simp add: friendStats_set image_image)
  have "card (set (map f_name (friendStats h))) = length (map f_name (friendStats h))"
    using distinct_card[OF distinct_FRIENDS] by (simp only: names len length_map)
  then have dist: "distinct (map f_name (friendStats h))"
    by (rule card_distinct)
  have tot: "\<forall>s \<in> set (friendStats h).
          total s = card {d. \<exists>rs. map_of h d = Some rs \<and> presentOn (f_name s) rs}"
    by (auto simp: friendStats_set totalPresent_card[OF assms])
  show ?thesis using len names dist tot friendStats_sorted friendStats_ties by blast
qed

theorem friendStats_counts_and_order_witness:
  "distinct (map fst exampleHistory)
   \<and> friendStats exampleHistory =
       [\<lparr>f_name = ''Caca'', total = 3\<rparr>, \<lparr>f_name = ''Fadhil'', total = 1\<rparr>,
        \<lparr>f_name = ''Nisa'', total = 1\<rparr>, \<lparr>f_name = ''Yolanda'', total = 0\<rparr>,
        \<lparr>f_name = ''Aurel'', total = 0\<rparr>, \<lparr>f_name = ''Jihan'', total = 0\<rparr>,
        \<lparr>f_name = ''Alisa'', total = 0\<rparr>, \<lparr>f_name = ''Opang'', total = 0\<rparr>,
        \<lparr>f_name = ''Clara'', total = 0\<rparr>]"
proof -
  have d: "distinct (map fst exampleHistory)"
    by (simp add: exampleHistory_def)
  have v: "friendStats exampleHistory =
       [\<lparr>f_name = ''Caca'', total = 3\<rparr>, \<lparr>f_name = ''Fadhil'', total = 1\<rparr>,
        \<lparr>f_name = ''Nisa'', total = 1\<rparr>, \<lparr>f_name = ''Yolanda'', total = 0\<rparr>,
        \<lparr>f_name = ''Aurel'', total = 0\<rparr>, \<lparr>f_name = ''Jihan'', total = 0\<rparr>,
        \<lparr>f_name = ''Alisa'', total = 0\<rparr>, \<lparr>f_name = ''Opang'', total = 0\<rparr>,
        \<lparr>f_name = ''Clara'', total = 0\<rparr>]"
    by code_simp
  have len: "length (friendStats exampleHistory) = length FRIENDS"
    using friendStats_counts_and_order[OF d] by (rule conjunct1)
  show ?thesis using len by (intro conjI d v)
qed

section \<open>Weekly statistics\<close>

text \<open>
  Claim C8, as the specification states it, fails: the clock is read once for the start
  of the week and again for every entry, and nothing holds the first reading. Here the
  first reading falls on Sunday 2024-03-10 and the later ones on the Monday after it, so
  the week is that of 4 to 10 March and no entry of it is today.
\<close>

theorem weeklyStats_midnight_counterexample:
  "weeklyStats midnightClock exampleHistory =
     Inr [\<lparr>w_name = ''Sen'', fullDate = ''2024-03-04'', count = 0, isToday = False\<rparr>,
          \<lparr>w_name = ''Sel'', fullDate = ''2024-03-05'', count = 0, isToday = False\<rparr>,
          \<lparr>w_name = ''Rab'', fullDate = ''2024-03-06'', count = 0, isToday = False\<rparr>,
          \<lparr>w_name = ''Kam'', fullDate = ''2024-03-07'', count = 0, isToday = False\<rparr>,
          \<lparr>w_name = ''Jum'', fullDate = ''2024-03-08'', count = 1, isToday = False\<rparr>,
          \<lparr>w_name = ''Sab'', fullDate = ''2024-03-09'', count = 2, isToday = False\<rparr>,
          \<lparr>w_name = ''Min'', fullDate = ''2024-03-10'', count = 2, isToday = False\<rparr>]"
proof -
  have s: "startOfWeek (midnightClock 0) = 19786"
    by (simp add: midnightClock_def startOfWeek_def getDay_def cong: let_weak_cong)
  show ?thesis
    unfolding weeklyStats_def s seven Let_def week_days
    by (simp add: week_parses week_labels weeklyEntry_def isSameDay_def exampleHistory_def
        absent_def arrived_def midnightClock_def)
qed

text \<open>
  Claim C8, amended. For every store, and a first clock reading whose week lies in the
  years 0001 to 9999, \<open>weeklyStats\<close> returns seven entries: entry \<open>i\<close> is the day \<open>i\<close>
  days after the Monday on or before the day of the first reading, so the entries run from
  Monday to Sunday of the week that holds it; its count is the number of present records
  stored under its date, zero when the store has no entry for it; and its \<open>isToday\<close> says
  whether its day is the day of the reading taken for it. When all readings of the
  derivation fall on one day, exactly one entry has \<open>isToday\<close>.
\<close>

theorem weeklyStats_week:
  assumes years: "daysFromCivil 1 1 1 \<le> startOfWeek (clock 0)"
      "startOfWeek (clock 0) + 6 \<le> daysFromCivil 9999 12 31"
  shows "\<exists>ws. weeklyStats clock h = Inr ws \<and> length ws = 7
     \<and> getDay (startOfWeek (clock 0)) = 1
     \<and> startOfWeek (clock 0) \<le> clock 0 \<and> clock 0 \<le> startOfWeek (clock 0) + 6
     \<and> (\<forall>i < 7. fullDate (ws ! i) = format_yyyy_MM_dd (startOfWeek (clock 0) + int i)
            \<and> getDay (startOfWeek (clock 0) + int i) = (1 + int i) mod 7
            \<and> count (ws ! i) = length (filter isPresent
                 (case map_of h (fullDate (ws ! i)) of Some rs \<Rightarrow> rs | None \<Rightarrow> []))
            \<and> (map_of h (fullDate (ws ! i)) = None \<longrightarrow> count (ws ! i) = 0)
            \<and> isToday (ws ! i) = (startOfWeek (clock 0) + int i = clock (Suc i)))
     \<and> ((\<forall>k \<le> 7. clock k = clock 0) \<longrightarrow> length (filter isToday ws) = 1)"
proof -
  let ?s = "startOfWeek (clock 0)"
  let ?ns = "map (\<lambda>i. ?s + int i) [0..<7]"
  let ?ws = "map (\<lambda>i. weeklyEntry h (format_yyyy_MM_dd (?s + int i)) (?s + int i) (clock (Suc i)))
               [0..<7]"
  have "daysFromCivil 1 1 1 = - 719162" "daysFromCivil 9999 12 31 = 2932896"
    by (simp_all add: daysFromCivil_def yearStart_def monthStart_def cong: let_weak_cong)
  with years have range: "- 719162 \<le> ?s" "?s + 6 \<le> 2932896"
    by simp_all
  have rt: "\<forall>n \<in> set ?ns. parseISO (format_yyyy_MM_dd n) = Some n"
  proof
    fix n assume "n \<in> set ?ns"
    then obtain i :: nat where "i < 7" "n = ?s + int i" by auto
    with range show "parseISO (format_yyyy_MM_dd n) = Some n"
      by (intro format_parse_roundtrip) auto
  qed
  have days: "map (\<lambda>i. format_yyyy_MM_dd (addDays ?s (int i))) [0..<7] = map format_yyyy_MM_dd ?ns"
    by (simp add: addDays_def)
  have "weeklyStats clock h =
      Inr (map (\<lambda>(j, n). weeklyEntry h (format_yyyy_MM_dd n) n (clock j)) (zip [1..<1 + length ?ns] ?ns))"
    unfolding weeklyStats_def Let_def days by (rule weeklyEntries_roundtrip[OF rt])
  also have "map (\<lambda>(j, n). weeklyEntry h (format_yyyy_MM_dd n) n (clock j)) (zip [1..<1 + length ?ns] ?ns)
      = ?ws"
    by (rule week_entries_explicit)
  finally have eq: "weeklyStats clock h = Inr ?ws" .
  have len: "length ?ws = 7" by simp
  have each: "\<forall>i < 7. fullDate (?ws ! i) = format_yyyy_MM_dd (?s + int i)
            \<and> getDay (?s + int i) = (1 + int i) mod 7
            \<and> count (?ws ! i) = length (filter isPresent
                 (case map_of h (fullDate (?ws ! i)) of Some rs \<Rightarrow> rs | None \<Rightarrow> []))
            \<and> (map_of h (fullDate (?ws ! i)) = None \<longrightarrow> count (?ws ! i) = 0)
            \<and> isToday (?ws ! i) = (?s + int i = clock (Suc i))"
  proof (intro allI impI)
    fix i :: nat assume i: "i < 7"
    have nth: "?ws ! i = weeklyEntry h (format_yyyy_MM_dd (?s + int i)) (?s + int i) (clock (Suc i))"
      using i by (simp del: upt_Suc)
    show "fullDate (?ws ! i) = format_yyyy_MM_dd (?s + int i)
            \<and> getDay (?s + int i) = (1 + int i) mod 7
            \<and> count (?ws ! i) = length (filter isPresent
                 (case map_of h (fullDate (?ws ! i)) of Some rs \<Rightarrow> rs | None \<Rightarrow> []))
            \<and> (map_of h (fullDate (?ws ! i)) = None \<longrightarrow> count (?ws ! i) = 0)
            \<and> isToday (?ws ! i) = (?s + int i = clock (Suc i))"
      unfolding nth by (simp add: weeklyEntry_def isSameDay_def getDay_addDays)
  qed
  have one: "length (filter isToday ?ws) = 1" if same: "\<forall>k \<le> 7. clock k = clock 0"
  proof -
    have "filter isToday ?ws =
        map (\<lambda>i. weeklyEntry h (format_yyyy_MM_dd (?s + int i)) (?s + int i) (clock (Suc i)))
          (filter (\<lambda>i. ?s + int i = clock (Suc i)) [0..<7])"
      by (simp only: filter_map comp_def) (simp add: weeklyEntry_def isSameDay_def)
    also have "filter (\<lambda>i. ?s + int i = clock (Suc i)) [0..<7] =
        filter (\<lambda>i. ?s + int i = clock 0) [0..<7]"
    proof (rule filter_cong[OF refl])
      fix i assume "i \<in> set [0..<7]"
      then have "Suc i \<le> 7" by simp
      with same have "clock (Suc i) = clock 0" by blast
      then show "(?s + int i = clock (Suc i)) = (?s + int i = clock 0)" by (simp only:)
    qed
    finally have "length (filter isToday ?ws) = length (filter (\<lambda>i. ?s + int i = clock 0) [0..<7])"
      by (simp only: length_map)
    then show ?thesis
      using one_today[of ?s "clock 0"] startOfWeek_bounds[of "clock 0"] by simp
  qed
  show ?thesis
    using eq len each one startOfWeek_bounds[of "clock 0"] by blast
qed

theorem weeklyStats_week_witness:
  "weeklyStats exampleClock exampleHistory =
     Inr [\<lparr>w_name = ''Sen'', fullDate = ''2024-03-04'', count = 0, isToday = False\<rparr>,
          \<lparr>w_name = ''Sel'', fullDate = ''2024-03-05'', count = 0, isToday = False\<rparr>,
          \<lparr>w_name = ''Rab'', fullDate = ''2024-03-06'', count = 0, isToday = False\<rparr>,
          \<lparr>w_name = ''Kam'', fullDate = ''2024-03-07'', count = 0, isToday = False\<rparr>,
          \<lparr>w_name = ''Jum'', fullDate = ''2024-03-08'', count = 1, isToday = False\<rparr>,
          \<lparr>w_name = ''Sab'', fullDate = ''2024-03-09'', count = 2, isToday = False\<rparr>,
          \<lparr>w_name = ''Min'', fullDate = ''2024-03-10'', count = 2, isToday = True\<rparr>]
   \<and> startOfWeek (exampleClock 0) = 19786
   \<and> (\<exists>ws. weeklyStats exampleClock exampleHistory = Inr ws \<and> length (filter isToday ws) = 1)"
proof -
  have same: "\<forall>k \<le> 7. exampleClock k = exampleClock 0"
    by (simp add: exampleClock_def)
  have s: "startOfWeek (exampleClock 0) = 19786"
    by (simp add: exampleClock_def startOfWeek_def getDay_def cong: let_weak_cong)
  have lo: "daysFromCivil 1 1 1 \<le> startOfWeek (exampleClock 0)"
    and hi: "startOfWeek (exampleClock 0) + 6 \<le> daysFromCivil 9999 12 31"
    unfolding s
    by (simp_all add: daysFromCivil_def yearStart_def monthStart_def cong: let_weak_cong)
  have v: "weeklyStats exampleClock exampleHistory =
     Inr [\<lparr>w_name = ''Sen'', fullDate = ''2024-03-04'', count = 0, isToday = False\<rparr>,
          \<lparr>w_name = ''Sel'', fullDate = ''2024-03-05'', count = 0, isToday = False\<rparr>,
          \<lparr>w_name = ''Rab'', fullDate = ''2024-03-06'', count = 0, isToday = False\<rparr>,
          \<lparr>w_name = ''Kam'', fullDate = ''2024-03-07'', count = 0, isToday = False\<rparr>,
          \<lparr>w_name = ''Jum'', fullDate = ''2024-03-08'', count = 1, isToday = False\<rparr>,
          \<lparr>w_name = ''Sab'', fullDate = ''2024-03-09'', count = 2, isToday = False\<rparr>,
          \<lparr>w_name = ''Min'', fullDate = ''2024-03-10'', count = 2, isToday = True\<rparr>]"
    unfolding weeklyStats_def s seven Let_def week_days
    by (simp add: week_parses week_labels weeklyEntry_def isSameDay_def exampleHistory_def
        absent_def arrived_def exampleClock_def)
  have "\<exists>ws. weeklyStats exampleClock exampleHistory = Inr ws
      \<and> ((\<forall>k \<le> 7. exampleClock k = exampleClock 0) \<longrightarrow> length (filter isToday ws) = 1)"
    using weeklyStats_week[of exampleClock exampleHistory, OF lo hi]
    by (elim exE conjE) (intro exI conjI, assumption+)
  with same have ex: "\<exists>ws. weeklyStats exampleClock exampleHistory = Inr ws
      \<and> length (filter isToday ws) = 1"
    by (elim exE conjE) (intro exI conjI, assumption, erule mp, assumption)
  show ?thesis using ex by (intro conjI v s)
qed

section \<open>Loading the persisted state\<close>

text \<open>
  Claim C1, as the specification states it, fails: a stored text that is not well-formed
  JSON makes the start raise \<open>SyntaxError\<close>. Here the history was cut off in the middle
  of a write.
\<close>

theorem startup_corrupt_history_counterexample:
  "startup corruptStorage = Inl SyntaxError"
  by code_simp

text \<open>
  Claim C1, amended. A key that is absent or holds the empty text gives the empty default
  (\<open>{}\<close> for the history, \<open>[]\<close> for the log). Any other text is handed to
  \<open>JSON.parse\<close>: its value is the initial state, and its \<open>SyntaxError\<close>, which is the only
  failure there is, is the outcome of the start.
\<close>

theorem startup_loads_or_fails:
  "(getItem ''attendance_history_v2'' = None \<or> getItem ''attendance_history_v2'' = Some []
      \<longrightarrow> loadHistory getItem = Inr (JObject []))
   \<and> (getItem ''attendance_logs_v2'' = None \<or> getItem ''attendance_logs_v2'' = Some []
      \<longrightarrow> loadLogs getItem = Inr (JArray []))
   \<and> (getItem ''attendance_history_v2'' = Some saved \<and> saved \<noteq> []
      \<longrightarrow> loadHistory getItem = JSON_parse saved)
   \<and> (getItem ''attendance_logs_v2'' = Some saved' \<and> saved' \<noteq> []
      \<longrightarrow> loadLogs getItem = JSON_parse saved')
   \<and> (loadHistory getItem = Inr h \<and> loadLogs getItem = Inr l \<longrightarrow> startup getItem = Inr (h, l))
   \<and> (loadHistory getItem = Inl e \<longrightarrow> e = SyntaxError \<and> startup getItem = Inl SyntaxError)
   \<and> (loadHistory getItem = Inr h \<and> loadLogs getItem = Inl e
      \<longrightarrow> e = SyntaxError \<and> startup getItem = Inl SyntaxError)"
proof -
  have eh: "e = SyntaxError" if "loadHistory getItem = Inl e"
    using that by (auto simp: loadHistory_def split: option.splits if_splits dest: JSON_parse_error)
  have el: "e = SyntaxError" if "loadLogs getItem = Inl e"
    using that by (auto simp: loadLogs_def split: option.splits if_splits dest: JSON_parse_error)
  show ?thesis
    using eh el by (auto simp: loadHistory_def loadLogs_def startup_def)
qed

theorem startup_loads_or_fails_witness:
  "startup Map.empty = Inr (JObject [], JArray [])
   \<and> startup savedStorage =
        Inr (JObject [(''2024-03-10'',
               JArray [JObject [(''name'', JString ''Nisa''), (''time'', JString ''08:15:00''),
                                (''isPresent'', JBool True)]])],
             JArray [])
   \<and> startup corruptLogStorage = Inl SyntaxError"
proof -
  have h0: "loadHistory Map.empty = Inr (JObject [])" and l0: "loadLogs Map.empty = Inr (JArray [])"
    using startup_loads_or_fails[of Map.empty] by simp_all
  have a: "startup Map.empty = Inr (JObject [], JArray [])"
    using startup_loads_or_fails[of Map.empty _ _ "JObject []" "JArray []"] h0 l0 by simp
  have b: "startup savedStorage =
        Inr (JObject [(''2024-03-10'',
               JArray [JObject [(''name'', JString ''Nisa''), (''time'', JString ''08:15:00''),
                                (''isPresent'', JBool True)]])],
             JArray [])"
    by code_simp
  have c: "loadHistory corruptLogStorage = Inr (JObject [])"
    by code_simp
  have d: "loadLogs corruptLogStorage = Inl SyntaxError"
    by code_simp
  have "startup corruptLogStorage = Inl SyntaxError"
    using startup_loads_or_fails[of corruptLogStorage _ _ "JObject []" _ SyntaxError] c d by simp
  with a b show ?thesis by simp
qed

end
